theory Spec2Isabelle
  imports Main "HOL-Library.Multiset"
begin

section \<open>Stitch Cafe: the order generator of \<^verbatim>\<open>vk_lp_main.py\<close>\<close>

text \<open>
  Python exceptions that the modelled functions can raise are values of \<open>error\<close>; a
  function that can raise returns \<open>error + 'a\<close> with \<open>Inl\<close> for the exception.
\<close>

datatype error = KeyError | IndexError | TypeError | AttributeError | RuntimeError

text \<open>A dish is a \<^verbatim>\<open>(name, crosses)\<close> tuple; an order is a list of dishes.\<close>

type_synonym dish = "string \<times> int"

text \<open>
  \<^verbatim>\<open>DISHES_BY_LEVEL\<close> is imported from \<^verbatim>\<open>data/dishes.py\<close>, which is not among the
  sources. It is a dictionary from level to dish list and is a parameter of everything
  that reads it.
\<close>

type_synonym catalog = "int \<rightharpoonup> dish list"

text \<open>\<^verbatim>\<open>DISHES_BY_LEVEL.get(lv, [])\<close>\<close>

definition dishes_at :: "catalog \<Rightarrow> int \<Rightarrow> dish list" where
  "dishes_at cat lv = (case cat lv of None \<Rightarrow> [] | Some ds \<Rightarrow> ds)"

text \<open>
  \<^verbatim>\<open>opened = []; for lv in range(0, dish_level + 1): opened.extend(DISHES_BY_LEVEL.get(lv, []))\<close>
\<close>

definition opened :: "catalog \<Rightarrow> int \<Rightarrow> dish list" where
  "opened cat dish_level = concat (map (dishes_at cat) [0..dish_level])"

text \<open>
  The randomness source. \<^verbatim>\<open>random.choice(seq)\<close> raises IndexError on an empty sequence
  and otherwise returns \<^verbatim>\<open>seq[i]\<close> for a drawn index below the length: the draw is the
  number \<open>r\<close>, read modulo the length. \<^verbatim>\<open>random.shuffle(pool)\<close> rearranges the list in
  place: its outcome is the function \<open>sh\<close>, which is a shuffle when it permutes every list.
\<close>

definition random_choice :: "nat \<Rightarrow> 'a list \<Rightarrow> error + 'a" where
  "random_choice r seq = (if seq = [] then Inl IndexError else Inr (seq ! (r mod length seq)))"

definition is_shuffle :: "(dish list \<Rightarrow> dish list) \<Rightarrow> bool" where
  "is_shuffle sh \<longleftrightarrow> (\<forall>xs. mset (sh xs) = mset xs)"

text \<open>
  \<^verbatim>\<open>for d in pool: if d not in take and len(take) < 3: take.append(d)\<close>
\<close>

fun take_from_pool :: "dish list \<Rightarrow> dish list \<Rightarrow> dish list" where
  "take_from_pool [] taken = taken"
| "take_from_pool (d # pool) taken =
     take_from_pool pool (if d \<notin> set taken \<and> length taken < 3 then taken @ [d] else taken)"

text \<open>
  One pass of the inner loop of the backfill:
  \<^verbatim>\<open>for d in DISHES_BY_LEVEL[0]: if d not in take: take.append(d); if len(take) == 3: break\<close>
\<close>

fun backfill_pass :: "dish list \<Rightarrow> dish list \<Rightarrow> dish list" where
  "backfill_pass [] taken = taken"
| "backfill_pass (d # ds) taken =
     (let taken' = (if d \<notin> set taken then taken @ [d] else taken)
      in if length taken' = 3 then taken' else backfill_pass ds taken')"

text \<open>
  \<^verbatim>\<open>while len(take) < 3: <one pass>\<close>. The loop has no bound of its own, so the model is
  a partial function: \<open>None\<close> is the loop that never exits.
\<close>

partial_function (option) backfill :: "dish list \<Rightarrow> dish list \<Rightarrow> dish list option" where
  "backfill level0 taken =
     (if length taken < 3 then backfill level0 (backfill_pass level0 taken) else Some taken)"

text \<open>
  \<^verbatim>\<open>generate_regular_order(level)\<close>. The result is \<open>None\<close> when the call does not return,
  \<open>Some (Inl e)\<close> when it raises and \<open>Some (Inr order)\<close> when it returns an order.
  \<^verbatim>\<open>DISHES_BY_LEVEL[0]\<close> is evaluated as the default argument of \<^verbatim>\<open>.get\<close> whether or
  not the default is used, so a catalog without level 0 raises KeyError.
\<close>

definition generate_regular_order ::
  "catalog \<Rightarrow> nat \<Rightarrow> (dish list \<Rightarrow> dish list) \<Rightarrow> int \<Rightarrow> (error + dish list) option" where
  "generate_regular_order cat r sh level =
     (let dish_level = min level 3;
          opened_pool = opened cat dish_level
      in case cat 0 of
           None \<Rightarrow> Some (Inl KeyError)
         | Some level0 \<Rightarrow>
             (let current_pool = (case cat dish_level of None \<Rightarrow> level0 | Some p \<Rightarrow> p)
              in case random_choice r current_pool of
                   Inl e \<Rightarrow> Some (Inl e)
                 | Inr cur \<Rightarrow>
                     (let pool = sh (filter (\<lambda>d. d \<noteq> cur) opened_pool);
                          take1 = take_from_pool pool [cur]
                      in map_option (\<lambda>t. Inr (take 3 t)) (backfill level0 take1))))"

text \<open>
  The catalogs on which \<^verbatim>\<open>generate_regular_order(L)\<close> has three dishes to return: level 0
  is present, the pool of the anchor
  (\<^verbatim>\<open>DISHES_BY_LEVEL.get(dish_level, DISHES_BY_LEVEL[0])\<close>) is not empty, and the levels
  \<open>0..min(L,3)\<close> hold at least three different \<^verbatim>\<open>(name, crosses)\<close> pairs.
\<close>

definition enough_dishes :: "catalog \<Rightarrow> int \<Rightarrow> bool" where
  "enough_dishes cat L \<longleftrightarrow>
     (case cat 0 of
        None \<Rightarrow> False
      | Some level0 \<Rightarrow> (case cat (min L 3) of None \<Rightarrow> level0 | Some p \<Rightarrow> p) \<noteq> []) \<and>
     3 \<le> length (remdups (opened cat (min L 3)))"

text \<open>
  No dish name of the levels \<open>0..min(L,3)\<close> occurs there with two different point values.
\<close>

definition unique_names :: "catalog \<Rightarrow> int \<Rightarrow> bool" where
  "unique_names cat L \<longleftrightarrow> distinct (map fst (remdups (opened cat (min L 3))))"

section \<open>Users, orders and the store\<close>

text \<open>
  The user dictionary that \<^verbatim>\<open>fetch_user\<close> returns, with the keys the bot reads. The four
  achievement flags are the integers the store keeps (0 or 1).
\<close>

record user =
  user_id :: int
  first_name :: string
  level :: int
  total_orders :: int
  has_student_done :: int
  has_critic_done :: int
  has_dirty_plate_done :: int
  has_second_chef_done :: int

text \<open>
  The active order as \<^verbatim>\<open>save_active_order(db, user_id, dishes, tag)\<close> stores it, and the
  last completed order with the keys \<^verbatim>\<open>dishes\<close>, \<^verbatim>\<open>crosses\<close> and \<^verbatim>\<open>tag\<close> that
  \<^verbatim>\<open>_vk_new_order_logic\<close> reads. A tag is a string or \<^verbatim>\<open>None\<close>.
\<close>

record active_order =
  dishes :: "dish list"
  tag :: "string option"

record last_order =
  last_dishes :: "dish list"
  last_crosses :: int
  last_tag :: "string option"

text \<open>
  Modelled from the spec: the persistence store (\<^verbatim>\<open>database.py\<close>) is missing; it is
  the record store of section 3 and section 6, with the users, at most one Active Order
  per user and the Last Completed Order per user.
\<close>

record db =
  users :: "int \<rightharpoonup> user"
  active_orders :: "int \<rightharpoonup> active_order"
  last_orders :: "int \<rightharpoonup> last_order"

text \<open>
  Modelled from the spec: \<^verbatim>\<open>fetch_user\<close> is missing; it is "fetch-or-create user by id"
  (upsert-on-read): an existing user is returned as stored, a new one is created at level 0
  with no completed order and no achievement.
\<close>

definition fetch_user :: "db \<Rightarrow> int \<Rightarrow> string \<Rightarrow> user \<times> db" where
  "fetch_user d uid fname =
     (case users d uid of
        Some u \<Rightarrow> (u, d)
      | None \<Rightarrow>
          (let u = \<lparr>user_id = uid, first_name = fname, level = 0, total_orders = 0,
                    has_student_done = 0, has_critic_done = 0, has_dirty_plate_done = 0,
                    has_second_chef_done = 0\<rparr>
           in (u, d\<lparr>users := (users d)(uid \<mapsto> u)\<rparr>)))"

text \<open>Modelled from the spec: \<^verbatim>\<open>get_active_order\<close> is missing; "get Active Order for a user".\<close>

definition get_active_order :: "db \<Rightarrow> int \<Rightarrow> active_order option" where
  "get_active_order d uid = active_orders d uid"

text \<open>
  Modelled from the spec: \<^verbatim>\<open>get_last_order\<close> is missing; "get Last Completed Order for a
  user".
\<close>

definition get_last_order :: "db \<Rightarrow> int \<Rightarrow> last_order option" where
  "get_last_order d uid = last_orders d uid"

text \<open>
  Modelled from the spec: \<^verbatim>\<open>save_active_order\<close> is missing; "set Active Order for a user".
\<close>

definition save_active_order :: "db \<Rightarrow> int \<Rightarrow> dish list \<Rightarrow> string option \<Rightarrow> db" where
  "save_active_order d uid ds t =
     d\<lparr>active_orders := (active_orders d)(uid \<mapsto> \<lparr>dishes = ds, tag = t\<rparr>)\<rparr>"

section \<open>Messages\<close>

text \<open>
  \<^verbatim>\<open>format_vk_user_mention(user_id, first_name)\<close> builds \<^verbatim>\<open>[id{user_id}|{first_name}]\<close>:
  the mention is kept as the pair it is built from.
\<close>

type_synonym mention = "int \<times> string"

definition format_vk_user_mention :: "int \<Rightarrow> string \<Rightarrow> mention" where
  "format_vk_user_mention uid fname = (uid, fname)"

text \<open>
  The templates of \<^verbatim>\<open>data/texts.py\<close> and the templates inside a special order's
  configuration are opaque: a text is the template that was formatted together with its
  arguments.
\<close>

datatype reply =
    ALREADY_HAS_ORDER mention
  | NEW_ORDER_MESSAGE mention int "dish list" int
  | DoubledTemplate string mention int
  | HalfTemplate string mention int "dish list"
  | RegularTemplate string mention
  | ADMIN_ONLY mention
  | EMPTY_DB
  | TOP_SENT_DM
  | TOP_DM_FAIL mention
  | StatsTable "user list"
  | UnknownCommand

text \<open>
  \<^verbatim>\<open>vk_api_call("messages.send", ...)\<close> either returns or raises; which of the two is the
  behaviour of the network, given as \<open>api\<close>: \<open>None\<close> when the call returns, \<open>Some e\<close> when it
  raises \<open>e\<close>. What the bot has sent is a list of events: a message that was delivered, or
  a failure that \<^verbatim>\<open>send_message\<close> logged.
\<close>

type_synonym api = "int \<Rightarrow> reply \<Rightarrow> error option"

datatype event = Delivered int reply | SendFailed int reply error

text \<open>
  \<^verbatim>\<open>send_message(peer_id, text, keyboard)\<close>: the whole body is inside
  \<^verbatim>\<open>try: ... except Exception as e: logger.error(...)\<close>, so the function returns normally
  whether or not the API call raises. The keyboard is a constant and is left out.
\<close>

definition send_message :: "api \<Rightarrow> int \<Rightarrow> reply \<Rightarrow> event list \<Rightarrow> event list" where
  "send_message a peer t out =
     (case a peer t of
        None \<Rightarrow> out @ [Delivered peer t]
      | Some e \<Rightarrow> out @ [SendFailed peer t e])"

section \<open>Creating a new order\<close>

text \<open>
  A special order's configuration is a dictionary read with \<^verbatim>\<open>.get("type", "regular")\<close>,
  \<^verbatim>\<open>["text_template"]\<close> and \<^verbatim>\<open>["dish"]\<close>; an absent key is \<open>None\<close>.
\<close>

record order_config =
  cfg_type :: "string option"
  cfg_text_template :: "string option"
  cfg_dish :: "dish option"

text \<open>
  \<^verbatim>\<open>check_special_order\<close> comes from \<^verbatim>\<open>data/special_orders.py\<close>, which is not among the
  sources: it is a parameter, a function of the order index and the four flags
  (student, critic, dirty plate, second chef) to an optional pair of tag and configuration.
\<close>

type_synonym special_rules = "int \<Rightarrow> int \<times> int \<times> int \<times> int \<Rightarrow> (string \<times> order_config) option"

text \<open>\<^verbatim>\<open>_order_index(total_orders)\<close>: \<^verbatim>\<open>(total_orders or 0) + 1\<close>.\<close>

definition order_index :: "int \<Rightarrow> int" where
  "order_index n = (if n = 0 then 0 else n) + 1"

text \<open>
  \<^verbatim>\<open>last_order_was_special\<close>: the last order is looked up only when
  \<^verbatim>\<open>user["total_orders"] > 0\<close>, and its tag counts when it is truthy (a non-empty string).
\<close>

definition last_order_was_special :: "db \<Rightarrow> user \<Rightarrow> bool" where
  "last_order_was_special d u =
     (if total_orders u > 0
      then (case get_last_order d (user_id u) of
              None \<Rightarrow> False
            | Some lo \<Rightarrow> (case last_tag lo of None \<Rightarrow> False | Some t \<Rightarrow> t \<noteq> []))
      else False)"

text \<open>
  \<^verbatim>\<open>special_result\<close>: \<^verbatim>\<open>check_special_order(idx, user_flags)\<close> unless the last order was
  special, in which case it is \<^verbatim>\<open>None\<close> and the rules are not called.
\<close>

definition special_result :: "special_rules \<Rightarrow> db \<Rightarrow> user \<Rightarrow> (string \<times> order_config) option" where
  "special_result check d u =
     (if \<not> last_order_was_special d u
      then check (order_index (total_orders u))
             (has_student_done u, has_critic_done u, has_dirty_plate_done u,
              has_second_chef_done u)
      else None)"

text \<open>
  The \<^verbatim>\<open>half_new_order\<close> arithmetic (lines 280 to 288): returns \<^verbatim>\<open>half_dishes\<close> and
  \<^verbatim>\<open>half_crosses\<close>. \<^verbatim>\<open>//\<close> is floor division, which is \<open>div\<close> on \<open>int\<close>.
\<close>

definition halve_order :: "dish list \<Rightarrow> dish list \<times> int" where
  "halve_order ds =
     (let total = sum_list (map snd ds);
          half_total = total div 2;
          half_dishes = map (\<lambda>(name, crosses). (name, max 1 (crosses div 2))) ds;
          half_crosses = sum_list (map snd half_dishes)
      in case half_dishes of
           (name0, val0) # rest \<Rightarrow>
             if half_crosses \<noteq> half_total
             then (let diff = half_total - half_crosses
                   in ((name0, max 1 (val0 + diff)) # rest, half_total))
             else (half_dishes, half_crosses)
         | [] \<Rightarrow> (half_dishes, half_crosses))"

text \<open>
  The last block of \<^verbatim>\<open>_vk_new_order_logic\<close> (lines 305 to 319): a regular order is
  generated, saved without a tag and announced.
\<close>

definition regular_order ::
  "catalog \<Rightarrow> nat \<Rightarrow> (dish list \<Rightarrow> dish list) \<Rightarrow> db \<Rightarrow> user \<Rightarrow> mention \<Rightarrow>
     (error + reply \<times> db) option" where
  "regular_order cat r sh d u name_mention =
     (case generate_regular_order cat r sh (level u) of
        None \<Rightarrow> None
      | Some (Inl e) \<Rightarrow> Some (Inl e)
      | Some (Inr ds) \<Rightarrow>
          (let total = sum_list (map snd ds);
               order_number = order_index (total_orders u);
               t = NEW_ORDER_MESSAGE name_mention order_number ds total
           in Some (Inr (t, save_active_order d (user_id u) ds None))))"

text \<open>
  \<^verbatim>\<open>_vk_new_order_logic(user, user_id, first_name)\<close>: returns the text; the store after the
  call is returned with it. \<open>None\<close> is a call that does not return, \<open>Some (Inl e)\<close> one
  that raises.
\<close>

definition vk_new_order_logic ::
  "catalog \<Rightarrow> special_rules \<Rightarrow> nat \<Rightarrow> (dish list \<Rightarrow> dish list) \<Rightarrow> db \<Rightarrow> user \<Rightarrow> int \<Rightarrow> string \<Rightarrow>
     (error + reply \<times> db) option" where
  "vk_new_order_logic cat check r sh d u uid fname =
     (let name_mention =
            format_vk_user_mention uid (if first_name u \<noteq> [] then first_name u else fname)
      in case special_result check d u of
           Some (tg, order_config) \<Rightarrow>
             (let order_type = (case cfg_type order_config of None \<Rightarrow> ''regular'' | Some t \<Rightarrow> t)
              in if order_type = ''double_previous'' then
                   (case get_last_order d (user_id u) of
                      Some lo \<Rightarrow>
                        (let doubled_dishes =
                               map (\<lambda>(name, crosses). (name, crosses * 2)) (last_dishes lo);
                             doubled_crosses = last_crosses lo * 2
                         in case cfg_text_template order_config of
                              None \<Rightarrow> Some (Inl KeyError)
                            | Some tmpl \<Rightarrow>
                                Some (Inr (DoubledTemplate tmpl name_mention doubled_crosses,
                                           save_active_order d (user_id u) doubled_dishes (Some tg))))
                    | None \<Rightarrow> regular_order cat r sh d u name_mention)
                 else if order_type = ''half_new_order'' then
                   (case generate_regular_order cat r sh (level u) of
                      None \<Rightarrow> None
                    | Some (Inl e) \<Rightarrow> Some (Inl e)
                    | Some (Inr ds) \<Rightarrow>
                        (let (half_dishes, half_crosses) = halve_order ds
                         in case cfg_text_template order_config of
                              None \<Rightarrow> Some (Inl KeyError)
                            | Some tmpl \<Rightarrow>
                                Some (Inr (HalfTemplate tmpl name_mention half_crosses half_dishes,
                                           save_active_order d (user_id u) half_dishes (Some tg)))))
                 else if order_type = ''regular'' then
                   (case cfg_dish order_config of
                      None \<Rightarrow> Some (Inl KeyError)
                    | Some dish \<Rightarrow>
                        (case cfg_text_template order_config of
                           None \<Rightarrow> Some (Inl KeyError)
                         | Some tmpl \<Rightarrow>
                             Some (Inr (RegularTemplate tmpl name_mention,
                                        save_active_order d (user_id u) [dish] (Some tg)))))
                 else regular_order cat r sh d u name_mention)
         | None \<Rightarrow> regular_order cat r sh d u name_mention)"

text \<open>
  \<^verbatim>\<open>handle_new(user_id, peer_id)\<close>. \<^verbatim>\<open>get_user_first_name\<close> asks the network for the name
  and never raises: its answer for each id is \<open>names\<close>. The result is the store and the
  events after the call.
\<close>

definition handle_new ::
  "catalog \<Rightarrow> special_rules \<Rightarrow> nat \<Rightarrow> (dish list \<Rightarrow> dish list) \<Rightarrow> (int \<Rightarrow> string) \<Rightarrow> api \<Rightarrow>
     db \<times> event list \<Rightarrow> int \<Rightarrow> int \<Rightarrow> (error + db \<times> event list) option" where
  "handle_new cat check r sh names a w uid peer =
     (let fname = names uid;
          (u, d1) = fetch_user (fst w) uid fname
      in case get_active_order d1 (user_id u) of
           Some active \<Rightarrow>
             (let name_mention =
                    format_vk_user_mention uid (if first_name u \<noteq> [] then first_name u else fname)
              in Some (Inr (d1, send_message a peer (ALREADY_HAS_ORDER name_mention) (snd w))))
         | None \<Rightarrow>
             (case vk_new_order_logic cat check r sh d1 u uid fname of
                None \<Rightarrow> None
              | Some (Inl e) \<Rightarrow> Some (Inl e)
              | Some (Inr (t, d2)) \<Rightarrow> Some (Inr (d2, send_message a peer t (snd w)))))"

section \<open>Statistics for the admin\<close>

text \<open>
  A call of \<^verbatim>\<open>send_message\<close> inside a \<^verbatim>\<open>try\<close> block, as a computation that could raise:
  it returns normally in every case, because \<^verbatim>\<open>send_message\<close> catches every exception
  of the API call itself.
\<close>

definition try_send :: "api \<Rightarrow> int \<Rightarrow> reply \<Rightarrow> event list \<Rightarrow> error + event list" where
  "try_send a peer t out = Inr (send_message a peer t out)"

text \<open>
  \<^verbatim>\<open>handle_top(user_id, peer_id)\<close>. \<^verbatim>\<open>is_admin\<close> comes from \<^verbatim>\<open>utils.py\<close>, which is not
  among the sources: \<open>admin\<close> is \<^verbatim>\<open>is_admin(str(user_id))\<close> as a predicate on the id. \<open>rows\<close>
  is the result of the \<^verbatim>\<open>SELECT\<close> over the users; the table built from the rows is the
  text \<open>StatsTable rows\<close>. Each \<^verbatim>\<open>try\<close> block is a chain of \<open>try_send\<close>, each \<open>Inl\<close> branch
  is the \<^verbatim>\<open>except Exception\<close> block.
\<close>

definition handle_top ::
  "(int \<Rightarrow> bool) \<Rightarrow> (int \<Rightarrow> string) \<Rightarrow> api \<Rightarrow> user list \<Rightarrow> int \<Rightarrow> int \<Rightarrow> event list \<Rightarrow> event list" where
  "handle_top admin names a rows uid peer out =
     (if \<not> admin uid
      then send_message a peer (ADMIN_ONLY (format_vk_user_mention uid (names uid))) out
      else
        (let dm = (if rows = [] then EMPTY_DB else StatsTable rows);
             on_except = (\<lambda>out'. if peer \<noteq> uid
                            then send_message a peer
                                   (TOP_DM_FAIL (format_vk_user_mention uid (names uid))) out'
                            else out')
         in case try_send a uid dm out of
              Inl e \<Rightarrow> on_except out
            | Inr out1 \<Rightarrow>
                if peer \<noteq> uid
                then (case try_send a peer TOP_SENT_DM out1 of
                        Inl e \<Rightarrow> on_except out1
                      | Inr out2 \<Rightarrow> out2)
                else out1))"

section \<open>The long-poll loop\<close>

text \<open>
  A decoded JSON value (\<^verbatim>\<open>resp.json()\<close>, \<^verbatim>\<open>json.loads\<close>). Numbers are integers; an
  object is a dictionary, read as an association list.
\<close>

datatype json =
    JNull
  | JBool bool
  | JInt int
  | JStr string
  | JList "json list"
  | JObj "(string \<times> json) list"

text \<open>\<^verbatim>\<open>d.get(k)\<close> on a dictionary; \<open>None\<close> when the key is absent.\<close>

definition jget :: "(string \<times> json) list \<Rightarrow> string \<Rightarrow> json option" where
  "jget kvs k = map_of kvs k"

text \<open>Python's truth value of a decoded value, as \<^verbatim>\<open>x or ""\<close> tests it.\<close>

fun truthy :: "json \<Rightarrow> bool" where
  "truthy JNull = False"
| "truthy (JBool b) = b"
| "truthy (JInt n) = (n \<noteq> 0)"
| "truthy (JStr s) = (s \<noteq> [])"
| "truthy (JList xs) = (xs \<noteq> [])"
| "truthy (JObj kvs) = (kvs \<noteq> [])"

text \<open>\<^verbatim>\<open>failed in (1,)\<close>: equality with 1, which holds for the number 1 and for \<^verbatim>\<open>True\<close>.\<close>

fun equals_one :: "json \<Rightarrow> bool" where
  "equals_one (JInt n) = (n = 1)"
| "equals_one (JBool b) = b"
| "equals_one _ = False"

text \<open>
  \<^verbatim>\<open>isinstance(x, int)\<close> on the result of \<^verbatim>\<open>.get\<close>: true of integers and of booleans
  (\<^verbatim>\<open>bool\<close> is a subclass of \<^verbatim>\<open>int\<close>, with values 0 and 1).
\<close>

fun as_int :: "json option \<Rightarrow> int option" where
  "as_int (Some (JInt n)) = Some n"
| "as_int (Some (JBool b)) = Some (if b then 1 else 0)"
| "as_int _ = None"

text \<open>
  Strings. A character stands for a code point below 256. \<^verbatim>\<open>str.strip()\<close> removes leading
  and trailing whitespace: the code points 9 to 13, 28 to 32, 133 and 160.
\<close>

definition is_space :: "char \<Rightarrow> bool" where
  "is_space c \<longleftrightarrow> (let n = (of_char c :: nat) in (9 \<le> n \<and> n \<le> 13) \<or> (28 \<le> n \<and> n \<le> 32) \<or> n = 133 \<or> n = 160)"

definition strip :: "string \<Rightarrow> string" where
  "strip s = rev (dropWhile is_space (rev (dropWhile is_space s)))"

text \<open>
  \<^verbatim>\<open>str.lower()\<close>, on the ASCII letters: the result is only compared with the ASCII
  command words, and no other character lowers to a character of these words.
\<close>

definition lower_char :: "char \<Rightarrow> char" where
  "lower_char c =
     (case map_of (zip ''ABCDEFGHIJKLMNOPQRSTUVWXYZ'' ''abcdefghijklmnopqrstuvwxyz'') c of
        None \<Rightarrow> c
      | Some l \<Rightarrow> l)"

definition lower :: "string \<Rightarrow> string" where
  "lower s = map lower_char s"

definition startswith :: "string \<Rightarrow> string \<Rightarrow> bool" where
  "startswith s p \<longleftrightarrow> take (length p) s = p"

text \<open>
  What the dispatcher does with one update: nothing (\<^verbatim>\<open>continue\<close>), a call of one of the
  handlers with \<^verbatim>\<open>from_id\<close> and \<^verbatim>\<open>peer_id\<close>, or the reply to an unknown slash command.
\<close>

datatype command = CmdNew | CmdMy | CmdDone | CmdStart | CmdTop10 | CmdTop | CmdReset

datatype action = Skip | Handler command int int | UnknownReply int

text \<open>\<^verbatim>\<open>text = (msg.get("text") or "").strip()\<close>; a truthy value that is not a string has no
  \<^verbatim>\<open>strip\<close>.\<close>

definition message_text :: "(string \<times> json) list \<Rightarrow> error + string" where
  "message_text msg =
     (case jget msg ''text'' of
        None \<Rightarrow> Inr (strip [])
      | Some v \<Rightarrow>
          if truthy v
          then (case v of JStr s \<Rightarrow> Inr (strip s) | _ \<Rightarrow> Inl AttributeError)
          else Inr (strip []))"

text \<open>
  The command of the button payload (lines 621 to 629). \<^verbatim>\<open>json.loads\<close> is the parameter
  \<open>loads\<close>, \<open>None\<close> when it raises \<^verbatim>\<open>JSONDecodeError\<close>. The command is
  \<^verbatim>\<open>str(payload_obj.get("cmd") or "").lower()\<close>; for a truthy value that is not a string,
  \<^verbatim>\<open>str\<close> gives a numeral, \<^verbatim>\<open>True\<close> or a bracketed text, none of which is a command word,
  so such a value counts as no command.
\<close>

definition payload_cmd :: "(string \<Rightarrow> json option) \<Rightarrow> (string \<times> json) list \<Rightarrow> string option" where
  "payload_cmd loads msg =
     (case jget msg ''payload'' of
        Some (JStr payload_raw) \<Rightarrow>
          (case loads payload_raw of
             Some (JObj payload_obj) \<Rightarrow>
               (case jget payload_obj ''cmd'' of
                  None \<Rightarrow> Some []
                | Some v \<Rightarrow>
                    if truthy v
                    then (case v of JStr s \<Rightarrow> Some (lower s) | _ \<Rightarrow> None)
                    else Some [])
           | _ \<Rightarrow> None)
      | _ \<Rightarrow> None)"

text \<open>
  The body of \<^verbatim>\<open>for upd in updates\<close> from the read of the text on (lines 606 to 669), for
  a message dictionary. \<open>allowed\<close> is \<^verbatim>\<open>ALLOWED_PEER_ID_INT\<close>.
\<close>

definition route_message ::
  "int option \<Rightarrow> (string \<Rightarrow> json option) \<Rightarrow> (string \<times> json) list \<Rightarrow> error + action" where
  "route_message allowed loads msg =
     (case message_text msg of
        Inl e \<Rightarrow> Inl e
      | Inr txt \<Rightarrow>
          if txt = [] then Inr Skip
          else
            (case as_int (jget msg ''from_id'') of
               None \<Rightarrow> Inr Skip
             | Some from_id \<Rightarrow>
                 (case as_int (jget msg ''peer_id'') of
                    None \<Rightarrow> Inr Skip
                  | Some peer_id \<Rightarrow>
                      if (case allowed of None \<Rightarrow> False | Some p \<Rightarrow> peer_id \<noteq> p) then Inr Skip
                      else
                        (let cmd = payload_cmd loads msg;
                             low = lower txt
                         in Inr (if cmd = Some ''new'' \<or> startswith low ''/new''
                                 then Handler CmdNew from_id peer_id
                                 else if cmd = Some ''my'' \<or> startswith low ''/my''
                                 then Handler CmdMy from_id peer_id
                                 else if cmd = Some ''done'' \<or> startswith low ''/done''
                                 then Handler CmdDone from_id peer_id
                                 else if startswith low ''/start''
                                 then Handler CmdStart from_id peer_id
                                 else if startswith low ''/top10''
                                 then Handler CmdTop10 from_id peer_id
                                 else if startswith low ''/top''
                                 then Handler CmdTop from_id peer_id
                                 else if startswith low ''/reset''
                                 then Handler CmdReset from_id peer_id
                                 else if startswith low ''/''
                                 then UnknownReply peer_id
                                 else Skip)))))"

text \<open>
  The body of the loop from its start (lines 602 to 605): \<^verbatim>\<open>.get\<close> on a value that is not
  a dictionary raises AttributeError.
\<close>

definition route :: "int option \<Rightarrow> (string \<Rightarrow> json option) \<Rightarrow> json \<Rightarrow> error + action" where
  "route allowed loads upd =
     (case upd of
        JObj u \<Rightarrow>
          if jget u ''type'' \<noteq> Some (JStr ''message_new'') then Inr Skip
          else
            (case (case jget u ''object'' of None \<Rightarrow> JObj [] | Some v \<Rightarrow> v) of
               JObj obj \<Rightarrow>
                 (case (case jget obj ''message'' of None \<Rightarrow> JObj [] | Some v \<Rightarrow> v) of
                    JObj msg \<Rightarrow> route_message allowed loads msg
                  | _ \<Rightarrow> Inl AttributeError)
             | _ \<Rightarrow> Inl AttributeError)
      | _ \<Rightarrow> Inl AttributeError)"

text \<open>
  One update, with the handlers as a parameter: \<open>run c from_id peer_id w\<close> is the call
  \<^verbatim>\<open>asyncio.run(handle_...(from_id, peer_id))\<close> on the world \<open>w\<close> (the store and what was
  sent), which returns a new world, raises, or does not return (\<open>None\<close>); \<open>unknown\<close> is the
  \<^verbatim>\<open>send_message\<close> of the unknown-command text.
\<close>

definition process_update ::
  "int option \<Rightarrow> (string \<Rightarrow> json option) \<Rightarrow> (command \<Rightarrow> int \<Rightarrow> int \<Rightarrow> 'w \<Rightarrow> (error + 'w) option) \<Rightarrow>
     (int \<Rightarrow> 'w \<Rightarrow> 'w) \<Rightarrow> json \<Rightarrow> 'w \<Rightarrow> (error + 'w) option" where
  "process_update allowed loads run unknown upd w =
     (case route allowed loads upd of
        Inl e \<Rightarrow> Some (Inl e)
      | Inr Skip \<Rightarrow> Some (Inr w)
      | Inr (Handler c from_id peer_id) \<Rightarrow> run c from_id peer_id w
      | Inr (UnknownReply peer_id) \<Rightarrow> Some (Inr (unknown peer_id w)))"

fun process_updates ::
  "int option \<Rightarrow> (string \<Rightarrow> json option) \<Rightarrow> (command \<Rightarrow> int \<Rightarrow> int \<Rightarrow> 'w \<Rightarrow> (error + 'w) option) \<Rightarrow>
     (int \<Rightarrow> 'w \<Rightarrow> 'w) \<Rightarrow> json list \<Rightarrow> 'w \<Rightarrow> (error + 'w) option" where
  "process_updates allowed loads run unknown [] w = Some (Inr w)"
| "process_updates allowed loads run unknown (upd # upds) w =
     (case process_update allowed loads run unknown upd w of
        None \<Rightarrow> None
      | Some (Inl e) \<Rightarrow> Some (Inl e)
      | Some (Inr w') \<Rightarrow> process_updates allowed loads run unknown upds w')"

text \<open>
  What \<^verbatim>\<open>for upd in updates\<close> iterates over: the elements of a list, the characters of a
  string, the keys of a dictionary; any other value is not iterable.
\<close>

definition iterate :: "json \<Rightarrow> error + json list" where
  "iterate j =
     (case j of
        JList xs \<Rightarrow> Inr xs
      | JStr s \<Rightarrow> Inr (map (\<lambda>c. JStr [c]) s)
      | JObj kvs \<Rightarrow> Inr (map (\<lambda>kv. JStr (fst kv)) kvs)
      | _ \<Rightarrow> Inl TypeError)"

text \<open>
  The cursor of the loop and its cycle counter. The outcome of the poll
  (\<^verbatim>\<open>requests.get\<close>, \<^verbatim>\<open>raise_for_status\<close>, \<^verbatim>\<open>resp.json()\<close>) is the behaviour of the network:
  a \<^verbatim>\<open>RequestException\<close> or \<^verbatim>\<open>JSONDecodeError\<close>, which the loop catches, or the decoded
  payload. The outcome of \<^verbatim>\<open>get_longpoll_server()\<close> is an exception or a fresh triple.
\<close>

record cursor =
  server :: string
  key :: string
  ts :: json
  cycle :: nat

datatype poll = PollFailed | PollData json

type_synonym refetch = "error + string \<times> string \<times> json"

text \<open>
  One pass through the body of \<^verbatim>\<open>while True\<close> (lines 568 to 669): \<open>Some (Inr s)\<close> when the
  pass reaches the next poll in state \<open>s\<close>, \<open>Some (Inl e)\<close> when the exception \<open>e\<close> leaves the
  loop, \<open>None\<close> when a handler does not return. A payload that is not a dictionary raises
  at \<^verbatim>\<open>"failed" in data\<close>, \<^verbatim>\<open>data["failed"]\<close> or \<^verbatim>\<open>data.get\<close> (TypeError or AttributeError,
  here TypeError).
\<close>

definition longpoll_iteration ::
  "int option \<Rightarrow> (string \<Rightarrow> json option) \<Rightarrow> (command \<Rightarrow> int \<Rightarrow> int \<Rightarrow> 'w \<Rightarrow> (error + 'w) option) \<Rightarrow>
     (int \<Rightarrow> 'w \<Rightarrow> 'w) \<Rightarrow> poll \<Rightarrow> refetch \<Rightarrow> cursor \<times> 'w \<Rightarrow> (error + cursor \<times> 'w) option" where
  "longpoll_iteration allowed loads run unknown p rf s =
     (let st = fst s; w = snd s
      in case p of
           PollFailed \<Rightarrow>
             (case rf of
                Inr (sv, k, t) \<Rightarrow> Some (Inr (st\<lparr>server := sv, key := k, ts := t\<rparr>, w))
              | Inl e2 \<Rightarrow> Some (Inr (st, w)))
         | PollData data \<Rightarrow>
             (let st1 = st\<lparr>cycle := cycle st + 1\<rparr>
              in case data of
                   JObj kvs \<Rightarrow>
                     (case jget kvs ''failed'' of
                        Some failed \<Rightarrow>
                          if equals_one failed
                          then Some (Inr (st1\<lparr>ts := (case jget kvs ''ts'' of
                                                       None \<Rightarrow> ts st1 | Some t \<Rightarrow> t)\<rparr>, w))
                          else
                            (case rf of
                               Inl e \<Rightarrow> Some (Inl e)
                             | Inr (sv, k, t) \<Rightarrow>
                                 Some (Inr (st1\<lparr>server := sv, key := k, ts := t\<rparr>, w)))
                      | None \<Rightarrow>
                          (let st2 = st1\<lparr>ts := (case jget kvs ''ts'' of
                                                   None \<Rightarrow> ts st1 | Some t \<Rightarrow> t)\<rparr>;
                               updates = (case jget kvs ''updates'' of
                                            None \<Rightarrow> JList [] | Some u \<Rightarrow> u)
                           in case iterate updates of
                                Inl e \<Rightarrow> Some (Inl e)
                              | Inr upds \<Rightarrow>
                                  (case process_updates allowed loads run unknown upds w of
                                     None \<Rightarrow> None
                                   | Some (Inl e) \<Rightarrow> Some (Inl e)
                                   | Some (Inr w') \<Rightarrow> Some (Inr (st2, w')))))
                 | _ \<Rightarrow> Some (Inl TypeError)))"

text \<open>
  \<^verbatim>\<open>longpoll_loop\<close> after its startup, run against a finite prefix of the network's
  behaviour (the outcome of each poll and of the refetch that may follow it):
  \<open>Some (Inr s)\<close> when the loop is about to poll again in state \<open>s\<close>, \<open>Some (Inl e)\<close> when
  the exception \<open>e\<close> has ended the loop.
\<close>

fun longpoll_loop ::
  "int option \<Rightarrow> (string \<Rightarrow> json option) \<Rightarrow> (command \<Rightarrow> int \<Rightarrow> int \<Rightarrow> 'w \<Rightarrow> (error + 'w) option) \<Rightarrow>
     (int \<Rightarrow> 'w \<Rightarrow> 'w) \<Rightarrow> (poll \<times> refetch) list \<Rightarrow> cursor \<times> 'w \<Rightarrow> (error + cursor \<times> 'w) option" where
  "longpoll_loop allowed loads run unknown [] s = Some (Inr s)"
| "longpoll_loop allowed loads run unknown (pr # net) s =
     (case longpoll_iteration allowed loads run unknown (fst pr) (snd pr) s of
        None \<Rightarrow> None
      | Some (Inl e) \<Rightarrow> Some (Inl e)
      | Some (Inr s') \<Rightarrow> longpoll_loop allowed loads run unknown net s')"

section \<open>Example data\<close>

text \<open>A user, a store, special-order rules and a catalog on which the theorems below are
  evaluated.\<close>

definition demo_user :: "int \<Rightarrow> user" where
  "demo_user n = \<lparr>user_id = 7, first_name = ''Ann'', level = 0, total_orders = n,
     has_student_done = 0, has_critic_done = 0, has_dirty_plate_done = 0,
     has_second_chef_done = 0\<rparr>"

definition demo_db :: "last_order option \<Rightarrow> active_order option \<Rightarrow> db" where
  "demo_db lo ao = \<lparr>users = (\<lambda>uid. if uid = 7 then Some (demo_user 1) else None),
     active_orders = (\<lambda>uid. if uid = 7 then ao else None),
     last_orders = (\<lambda>uid. if uid = 7 then lo else None)\<rparr>"

definition demo_rules :: "string \<Rightarrow> special_rules" where
  "demo_rules ty = (\<lambda>idx flags.
     Some (''special'', \<lparr>cfg_type = Some ty, cfg_text_template = Some ''template'',
                         cfg_dish = None\<rparr>))"

definition demo_catalog :: "int \<Rightarrow> int \<Rightarrow> int \<Rightarrow> catalog" where
  "demo_catalog a b c = [0 \<mapsto> [(''tea'', a), (''pie'', b), (''jam'', c)]]"

definition demo_small_catalog :: catalog where
  "demo_small_catalog = [0 \<mapsto> [(''tea'', 10), (''pie'', 20)]]"

section \<open>Properties of the order generator\<close>

lemma backfill_pass_noop:
  "set ds \<subseteq> set acc \<Longrightarrow> length acc \<noteq> 3 \<Longrightarrow> backfill_pass ds acc = acc"
  by (induction ds) auto

lemma backfill_done: "3 \<le> length acc \<Longrightarrow> backfill l0 acc = Some acc"
  by (subst backfill.simps) simp

lemma backfill_Some_not_stuck:
  "backfill l0 acc = Some y \<Longrightarrow> \<not> (length acc < 3 \<and> backfill_pass l0 acc = acc)"
proof (rule backfill.raw_induct
    [where P = "\<lambda>l0 acc y. \<not> (length acc < 3 \<and> backfill_pass l0 acc = acc)"])
  show "backfill l0 acc = Some y \<Longrightarrow> backfill l0 acc = Some y" by assumption
next
  fix bf :: "dish list \<Rightarrow> dish list \<Rightarrow> dish list option" and l0 acc y
  assume ih: "\<And>l0 acc y. bf l0 acc = Some y \<Longrightarrow>
      \<not> (length acc < 3 \<and> backfill_pass l0 acc = acc)"
    and eq: "(if length acc < 3 then bf l0 (backfill_pass l0 acc) else Some acc) = Some y"
  show "\<not> (length acc < 3 \<and> backfill_pass l0 acc = acc)"
  proof
    assume st: "length acc < 3 \<and> backfill_pass l0 acc = acc"
    with eq have "bf l0 acc = Some y" by simp
    from ih [OF this] st show False by simp
  qed
qed

lemma backfill_stuck:
  "length acc < 3 \<Longrightarrow> backfill_pass l0 acc = acc \<Longrightarrow> backfill l0 acc = None"
  using backfill_Some_not_stuck [of l0 acc] by (cases "backfill l0 acc") auto

lemma take_from_pool_distinct:
  "distinct acc \<Longrightarrow> distinct (take_from_pool pool acc)"
  by (induction pool arbitrary: acc) auto

lemma take_from_pool_length:
  "length acc \<le> 3 \<Longrightarrow> length (take_from_pool pool acc) \<le> 3"
  by (induction pool arbitrary: acc) auto

lemma take_from_pool_mono: "set acc \<subseteq> set (take_from_pool pool acc)"
proof (induction pool arbitrary: acc)
  case Nil
  show ?case by simp
next
  case (Cons d pool)
  let ?acc = "if d \<notin> set acc \<and> length acc < 3 then acc @ [d] else acc"
  have "set acc \<subseteq> set ?acc" by auto
  also have "\<dots> \<subseteq> set (take_from_pool pool ?acc)" by (rule Cons.IH)
  finally show ?case by simp
qed

lemma take_from_pool_length_mono: "length acc \<le> length (take_from_pool pool acc)"
proof (induction pool arbitrary: acc)
  case Nil
  show ?case by simp
next
  case (Cons d pool)
  let ?acc = "if d \<notin> set acc \<and> length acc < 3 then acc @ [d] else acc"
  have "length acc \<le> length ?acc" by auto
  also have "\<dots> \<le> length (take_from_pool pool ?acc)" by (rule Cons.IH)
  finally show ?case by simp
qed

lemma take_from_pool_subset: "set (take_from_pool pool acc) \<subseteq> set acc \<union> set pool"
proof (induction pool arbitrary: acc)
  case Nil
  show ?case by simp
next
  case (Cons d pool)
  let ?acc = "if d \<notin> set acc \<and> length acc < 3 then acc @ [d] else acc"
  have "set (take_from_pool pool ?acc) \<subseteq> set ?acc \<union> set pool" by (rule Cons.IH)
  also have "\<dots> \<subseteq> set acc \<union> set (d # pool)" by auto
  finally show ?case by simp
qed

lemma take_from_pool_exhausts:
  "length (take_from_pool pool acc) < 3 \<Longrightarrow> set pool \<subseteq> set (take_from_pool pool acc)"
proof (induction pool arbitrary: acc)
  case Nil
  show ?case by simp
next
  case (Cons d pool)
  let ?acc = "if d \<notin> set acc \<and> length acc < 3 then acc @ [d] else acc"
  have lt: "length (take_from_pool pool ?acc) < 3" using Cons.prems by simp
  have "length ?acc \<le> length (take_from_pool pool ?acc)"
    by (rule take_from_pool_length_mono)
  with lt have "length ?acc < 3" by simp
  then have "d \<in> set ?acc" by (auto split: if_splits)
  then have "d \<in> set (take_from_pool pool ?acc)"
    using take_from_pool_mono [of ?acc pool] by blast
  moreover have "set pool \<subseteq> set (take_from_pool pool ?acc)"
    using Cons.IH [OF lt] .
  ultimately show ?case by simp
qed

lemma take_from_pool_three:
  assumes "distinct acc" and "length acc \<le> 3" and "3 \<le> card (set acc \<union> set pool)"
  shows "length (take_from_pool pool acc) = 3"
proof (rule ccontr)
  let ?t = "take_from_pool pool acc"
  assume "length ?t \<noteq> 3"
  with take_from_pool_length [OF assms(2), of pool] have lt: "length ?t < 3" by simp
  have "set acc \<union> set pool \<subseteq> set ?t"
    using take_from_pool_exhausts [OF lt] take_from_pool_mono [of acc pool] by blast
  then have "card (set acc \<union> set pool) \<le> card (set ?t)"
    by (intro card_mono) simp_all
  also have "\<dots> \<le> length ?t" by (rule card_length)
  finally show False using lt assms(3) by simp
qed

lemma opened_iff:
  "d \<in> set (opened cat k) \<longleftrightarrow> (\<exists>lv ds. 0 \<le> lv \<and> lv \<le> k \<and> cat lv = Some ds \<and> d \<in> set ds)"
proof
  assume "d \<in> set (opened cat k)"
  then obtain lv where lv: "0 \<le> lv" "lv \<le> k" and d: "d \<in> set (dishes_at cat lv)"
    by (auto simp: opened_def)
  from d obtain ds where "cat lv = Some ds" "d \<in> set ds"
    by (cases "cat lv") (auto simp: dishes_at_def)
  with lv show "\<exists>lv ds. 0 \<le> lv \<and> lv \<le> k \<and> cat lv = Some ds \<and> d \<in> set ds" by blast
next
  assume "\<exists>lv ds. 0 \<le> lv \<and> lv \<le> k \<and> cat lv = Some ds \<and> d \<in> set ds"
  then obtain lv ds where lv: "0 \<le> lv" "lv \<le> k" and c: "cat lv = Some ds" and d: "d \<in> set ds"
    by blast
  from c d have "d \<in> set (dishes_at cat lv)" by (simp add: dishes_at_def)
  with lv show "d \<in> set (opened cat k)" by (auto simp: opened_def)
qed

lemma random_choice_in:
  "random_choice r xs = Inr x \<Longrightarrow> x \<in> set xs"
  by (auto simp: random_choice_def split: if_splits)

lemma is_shuffle_set: "is_shuffle sh \<Longrightarrow> set (sh xs) = set xs"
  unfolding is_shuffle_def by (metis set_mset_mset)

lemma generate_regular_order_returns:
  assumes L: "0 \<le> L" and en: "enough_dishes cat L" and sh: "is_shuffle sh"
  shows "\<exists>order. generate_regular_order cat r sh L = Some (Inr order) \<and>
           length order = 3 \<and> distinct order \<and> set order \<subseteq> set (opened cat (min L 3))"
proof -
  define k where "k = min L 3"
  have k: "0 \<le> k" using L by (simp add: k_def)
  from en obtain level0 where l0: "cat 0 = Some level0"
    and cp: "(case cat k of None \<Rightarrow> level0 | Some p \<Rightarrow> p) \<noteq> []"
    by (auto simp: enough_dishes_def k_def split: option.splits)
  from en have c0: "3 \<le> card (set (opened cat k))"
    by (simp add: enough_dishes_def k_def length_remdups_card_conv)
  define current_pool where "current_pool = (case cat k of None \<Rightarrow> level0 | Some p \<Rightarrow> p)"
  have l0sub: "set level0 \<subseteq> set (opened cat k)"
  proof
    fix d assume "d \<in> set level0"
    with l0 k have "0 \<le> (0::int) \<and> 0 \<le> k \<and> cat 0 = Some level0 \<and> d \<in> set level0" by simp
    then show "d \<in> set (opened cat k)" unfolding opened_iff by blast
  qed
  have cpsub: "set current_pool \<subseteq> set (opened cat k)"
  proof (cases "cat k")
    case None
    then show ?thesis using l0sub by (simp add: current_pool_def)
  next
    case (Some p)
    show ?thesis
    proof
      fix d assume "d \<in> set current_pool"
      with Some k have "0 \<le> k \<and> k \<le> k \<and> cat k = Some p \<and> d \<in> set p"
        by (simp add: current_pool_def)
      then show "d \<in> set (opened cat k)" unfolding opened_iff by blast
    qed
  qed
  obtain cur where cur: "random_choice r current_pool = Inr cur"
    using cp by (auto simp: random_choice_def current_pool_def)
  have curin: "cur \<in> set (opened cat k)"
    using random_choice_in [OF cur] cpsub by blast
  define pool where "pool = sh (filter (\<lambda>d. d \<noteq> cur) (opened cat k))"
  define take1 where "take1 = take_from_pool pool [cur]"
  have setpool: "set [cur] \<union> set pool = set (opened cat k)"
    using curin by (auto simp: pool_def is_shuffle_set [OF sh])
  have c3: "3 \<le> card (set [cur] \<union> set pool)" using c0 setpool by simp
  have len: "length take1 = 3"
    unfolding take1_def by (rule take_from_pool_three [OF _ _ c3]) simp_all
  have dist: "distinct take1"
    unfolding take1_def by (rule take_from_pool_distinct) simp
  have sub: "set take1 \<subseteq> set (opened cat k)"
    using take_from_pool_subset [of pool "[cur]"] setpool by (simp add: take1_def)
  have bf: "backfill level0 take1 = Some take1" using len by (simp add: backfill_done)
  have res: "generate_regular_order cat r sh L = Some (Inr take1)"
    using l0 cur bf len
    by (simp add: generate_regular_order_def Let_def k_def [symmetric]
        current_pool_def [symmetric] pool_def [symmetric] take1_def [symmetric])
  with len dist sub show ?thesis unfolding k_def by blast
qed

lemma generate_regular_order_diverges:
  assumes L: "0 \<le> L" and sh: "is_shuffle sh" and l0: "cat 0 = Some level0"
    and cp: "(case cat (min L 3) of None \<Rightarrow> level0 | Some p \<Rightarrow> p) \<noteq> []"
    and few: "card (set (opened cat (min L 3))) < 3"
  shows "generate_regular_order cat r sh L = None"
proof -
  define k where "k = min L 3"
  have k: "0 \<le> k" using L by (simp add: k_def)
  define current_pool where "current_pool = (case cat k of None \<Rightarrow> level0 | Some p \<Rightarrow> p)"
  have l0sub: "set level0 \<subseteq> set (opened cat k)"
  proof
    fix d assume "d \<in> set level0"
    with l0 k have "0 \<le> (0::int) \<and> 0 \<le> k \<and> cat 0 = Some level0 \<and> d \<in> set level0" by simp
    then show "d \<in> set (opened cat k)" unfolding opened_iff by blast
  qed
  have cpsub: "set current_pool \<subseteq> set (opened cat k)"
  proof (cases "cat k")
    case None
    then show ?thesis using l0sub by (simp add: current_pool_def)
  next
    case (Some p)
    show ?thesis
    proof
      fix d assume "d \<in> set current_pool"
      with Some k have "0 \<le> k \<and> k \<le> k \<and> cat k = Some p \<and> d \<in> set p"
        by (simp add: current_pool_def)
      then show "d \<in> set (opened cat k)" unfolding opened_iff by blast
    qed
  qed
  obtain cur where cur: "random_choice r current_pool = Inr cur"
    using cp by (auto simp: random_choice_def current_pool_def k_def)
  have curin: "cur \<in> set (opened cat k)"
    using random_choice_in [OF cur] cpsub by blast
  define pool where "pool = sh (filter (\<lambda>d. d \<noteq> cur) (opened cat k))"
  define take1 where "take1 = take_from_pool pool [cur]"
  have setpool: "set [cur] \<union> set pool = set (opened cat k)"
    using curin by (auto simp: pool_def is_shuffle_set [OF sh])
  have dist: "distinct take1"
    unfolding take1_def by (rule take_from_pool_distinct) simp
  have sub: "set take1 \<subseteq> set (opened cat k)"
    using take_from_pool_subset [of pool "[cur]"] setpool by (simp add: take1_def)
  have "length take1 = card (set take1)" using dist by (simp add: distinct_card)
  also have "\<dots> \<le> card (set (opened cat k))" using sub by (intro card_mono) simp_all
  finally have lt: "length take1 < 3" using few by (simp add: k_def)
  have "set pool \<subseteq> set take1"
    using take_from_pool_exhausts [of pool "[cur]"] lt by (simp add: take1_def)
  moreover have "cur \<in> set take1"
    using take_from_pool_mono [of "[cur]" pool] by (simp add: take1_def)
  ultimately have "set (opened cat k) \<subseteq> set take1" using setpool by auto
  with l0sub have "set level0 \<subseteq> set take1" by blast
  then have "backfill_pass level0 take1 = take1" using lt by (intro backfill_pass_noop) simp_all
  with lt have "backfill level0 take1 = None" by (intro backfill_stuck)
  then show ?thesis
    using l0 cur
    by (simp add: generate_regular_order_def Let_def k_def [symmetric]
        current_pool_def [symmetric] pool_def [symmetric] take1_def [symmetric])
qed

lemma generate_regular_order_returns_iff:
  assumes L: "0 \<le> L" and sh: "is_shuffle sh"
  shows "(\<exists>order. generate_regular_order cat r sh L = Some (Inr order)) \<longleftrightarrow> enough_dishes cat L"
proof
  assume "enough_dishes cat L"
  from generate_regular_order_returns [OF L this sh, of r]
  show "\<exists>order. generate_regular_order cat r sh L = Some (Inr order)" by blast
next
  assume ex: "\<exists>order. generate_regular_order cat r sh L = Some (Inr order)"
  show "enough_dishes cat L"
  proof (rule ccontr)
    assume ne: "\<not> enough_dishes cat L"
    show False
    proof (cases "cat 0")
      case None
      then have "generate_regular_order cat r sh L = Some (Inl KeyError)"
        by (simp add: generate_regular_order_def Let_def)
      with ex show False by simp
    next
      case (Some level0)
      show False
      proof (cases "(case cat (min L 3) of None \<Rightarrow> level0 | Some p \<Rightarrow> p) = []")
        case True
        then have "generate_regular_order cat r sh L = Some (Inl IndexError)"
          using Some by (simp add: generate_regular_order_def Let_def random_choice_def)
        with ex show False by simp
      next
        case False
        with ne Some have "card (set (opened cat (min L 3))) < 3"
          by (simp add: enough_dishes_def length_remdups_card_conv)
        from generate_regular_order_diverges [OF L sh Some False this, of r] ex
        show False by simp
      qed
    qed
  qed
qed

text \<open>
  Claim C1, amended. For every level \<open>L \<ge> 0\<close> and every outcome of the randomness source
  (every draw \<open>r\<close> of \<^verbatim>\<open>random.choice\<close> and every permutation \<open>sh\<close> of
  \<^verbatim>\<open>random.shuffle\<close>), on a catalog with level 0, a non-empty anchor pool and at least
  three different \<^verbatim>\<open>(name, crosses)\<close> pairs in the levels \<open>0..min(L,3)\<close>,
  \<^verbatim>\<open>generate_regular_order(L)\<close> returns a list of exactly 3 pairwise different pairs, all
  from the catalog's levels \<open>0..min(L,3)\<close>; the dish names are pairwise distinct when no
  name has two point values in those levels.
\<close>

theorem generate_regular_order_three_pairs:
  assumes L: "0 \<le> L" and en: "enough_dishes cat L" and sh: "is_shuffle sh"
  shows "\<exists>order. generate_regular_order cat r sh L = Some (Inr order) \<and>
           length order = 3 \<and> distinct order \<and>
           (\<forall>d\<in>set order. \<exists>lv ds. 0 \<le> lv \<and> lv \<le> min L 3 \<and> cat lv = Some ds \<and> d \<in> set ds) \<and>
           (unique_names cat L \<longrightarrow> distinct (map fst order))"
proof -
  from generate_regular_order_returns [OF L en sh, of r]
  obtain order where res: "generate_regular_order cat r sh L = Some (Inr order)"
    and len: "length order = 3" and dist: "distinct order"
    and sub: "set order \<subseteq> set (opened cat (min L 3))" by blast
  have lv: "\<forall>d\<in>set order. \<exists>lv ds. 0 \<le> lv \<and> lv \<le> min L 3 \<and> cat lv = Some ds \<and> d \<in> set ds"
    using sub unfolding opened_iff [symmetric] by blast
  have "distinct (map fst order)" if "unique_names cat L"
  proof -
    from that have "inj_on fst (set (opened cat (min L 3)))"
      by (simp add: unique_names_def distinct_map)
    then have "inj_on fst (set order)" using sub by (rule inj_on_subset)
    with dist show ?thesis by (simp add: distinct_map)
  qed
  with res len dist lv show ?thesis by blast
qed

theorem generate_regular_order_three_pairs_witness:
  "enough_dishes [0 \<mapsto> [(''tea'', 10), (''pie'', 20)], 1 \<mapsto> [(''cake'', 40)]] 1 \<and>
   unique_names [0 \<mapsto> [(''tea'', 10), (''pie'', 20)], 1 \<mapsto> [(''cake'', 40)]] 1 \<and>
   is_shuffle rev \<and>
   (\<exists>order. generate_regular_order
       [0 \<mapsto> [(''tea'', 10), (''pie'', 20)], 1 \<mapsto> [(''cake'', 40)]] 7 rev 1
         = Some (Inr order) \<and>
       length order = 3 \<and> distinct order \<and> distinct (map fst order) \<and>
       (\<forall>d\<in>set order. \<exists>lv ds. 0 \<le> lv \<and> lv \<le> min 1 3 \<and>
          [(0::int) \<mapsto> [(''tea'', 10), (''pie'', 20)], 1 \<mapsto> [(''cake'', 40::int)]] lv = Some ds \<and>
          d \<in> set ds))"
proof -
  let ?cat = "[0 \<mapsto> [(''tea'', 10), (''pie'', 20)], 1 \<mapsto> [(''cake'', 40)]] :: catalog"
  have en: "enough_dishes ?cat 1"
    by (simp add: enough_dishes_def opened_def dishes_at_def upto_rec1)
  have un: "unique_names ?cat 1"
    by (simp add: unique_names_def opened_def dishes_at_def upto_rec1)
  have sh: "is_shuffle rev" by (simp add: is_shuffle_def)
  have L: "(0::int) \<le> 1" by simp
  from generate_regular_order_three_pairs [OF L en sh, of 7] en un sh show ?thesis by blast
qed

text \<open>
  Claim C1 as stated fails: the code compares \<^verbatim>\<open>(name, crosses)\<close> tuples, not names. With
  tea at 10 points on level 0 and at 99 points on level 1, level 1 returns tea twice.
\<close>

theorem generate_regular_order_names_counterexample:
  "generate_regular_order
       [0 \<mapsto> [(''tea'', 10), (''pie'', 20), (''jam'', 30)], 1 \<mapsto> [(''tea'', 99)]] 0 (\<lambda>xs. xs) 1
     = Some (Inr [(''tea'', 99), (''tea'', 10), (''pie'', 20)]) \<and>
   \<not> distinct (map fst [(''tea'', 99::int), (''tea'', 10), (''pie'', 20)])"
  by (simp add: generate_regular_order_def opened_def dishes_at_def random_choice_def
      backfill_done Let_def upto_rec1)

lemma generate_regular_order_example:
  "generate_regular_order
       [0 \<mapsto> [(''tea'', 10), (''pie'', 20), (''jam'', 30)], 1 \<mapsto> [(''cake'', 40)]] 7 rev 1
    = Some (Inr [(''cake'', 40), (''jam'', 30), (''pie'', 20)])"
  by (simp add: generate_regular_order_def opened_def dishes_at_def random_choice_def
      backfill_done Let_def upto_rec1)

text \<open>
  Claim C2 says that the backfill phase of \<^verbatim>\<open>generate_regular_order\<close> terminates for every
  catalog, also when level 0 and the whole unlocked pool hold fewer than 3 different
  dishes. The code does not: for a level \<open>L \<ge> 0\<close> every level-0 dish is already in the
  unlocked pool, so when the \<^verbatim>\<open>while\<close> loop is entered a pass over level 0 appends
  nothing and the loop condition never changes (\<open>generate_regular_order_diverges\<close>). On
  the catalog with the two level-0 dishes tea and pie, at level 0, the call never returns.
\<close>

theorem backfill_never_exits_small_catalog:
  "generate_regular_order [0 \<mapsto> [(''tea'', 10), (''pie'', 20)]] 0 (\<lambda>xs. xs) 0 = None"
proof -
  have "backfill [(''tea'', 10), (''pie'', 20)] [(''tea'', 10), (''pie'', 20)] = None"
    by (rule backfill_stuck) simp_all
  then show ?thesis
    by (simp add: generate_regular_order_def opened_def dishes_at_def random_choice_def
        Let_def upto_rec1)
qed


section \<open>Properties of order creation\<close>

lemma sum_halves_le: "sum_list (map (\<lambda>c. c div 2) cs) \<le> sum_list cs div (2::int)"
proof (induction cs)
  case Nil
  show ?case by simp
next
  case (Cons c cs)
  have "c div 2 + sum_list cs div 2 \<le> (c + sum_list cs) div 2" by presburger
  with Cons show ?case by simp
qed

lemma halved_values_eq:
  "\<forall>x\<in>set ds. 2 \<le> snd x \<Longrightarrow>
   map snd (map (\<lambda>(name, crosses). (name, max 1 (crosses div 2))) ds)
     = map (\<lambda>c. c div 2) (map snd (ds :: dish list))"
  by (induction ds) (auto simp: max_def)

lemma halve_order_names: "map fst (fst (halve_order ds)) = map fst ds"
proof (cases ds)
  case Nil
  then show ?thesis by (simp add: halve_order_def)
next
  case (Cons x xs)
  obtain n c where x: "x = (n, c)" by (cases x)
  have "map (fst \<circ> (\<lambda>(name, crosses). (name, max 1 (crosses div 2)))) xs = map fst xs"
    by (induction xs) auto
  then show ?thesis using Cons x by (simp add: halve_order_def Let_def)
qed

lemma halve_order_positive: "\<forall>x\<in>set (fst (halve_order ds)). 1 \<le> snd x"
proof (cases ds)
  case Nil
  then show ?thesis by (simp add: halve_order_def)
next
  case (Cons x xs)
  obtain n c where x: "x = (n, c)" by (cases x)
  have "\<forall>y\<in>set (map (\<lambda>(name, crosses). (name, max (1::int) (crosses div 2))) xs). 1 \<le> snd y"
    by auto
  then show ?thesis using Cons x by (simp add: halve_order_def Let_def)
qed

lemma halve_order_Cons:
  "halve_order ((n, c) # xs) =
     (let hs = map (\<lambda>(name, crosses). (name, max 1 (crosses div 2))) xs;
          v0 = max 1 (c div 2);
          S = v0 + sum_list (map snd hs);
          H = (c + sum_list (map snd xs)) div 2
      in if S \<noteq> H then ((n, max 1 (v0 + (H - S))) # hs, H) else ((n, v0) # hs, S))"
  by (simp add: halve_order_def Let_def)

lemma halve_order_sum:
  assumes "\<forall>x\<in>set ds. 2 \<le> snd x"
  shows "sum_list (map snd (fst (halve_order ds))) = sum_list (map snd ds) div 2"
proof (cases ds)
  case Nil
  then show ?thesis by (simp add: halve_order_def)
next
  case (Cons x xs)
  obtain n c where x: "x = (n, c)" by (cases x)
  define hs where "hs = map (\<lambda>(name, crosses). (name, max (1::int) (crosses div 2))) xs"
  define S where "S = max 1 (c div 2) + sum_list (map snd hs)"
  define H where "H = (c + sum_list (map snd xs)) div 2"
  have c2: "2 \<le> c" and xs2: "\<forall>y\<in>set xs. 2 \<le> snd y" using assms Cons x by auto
  have hv: "map snd hs = map (\<lambda>c. c div 2) (map snd xs)"
    unfolding hs_def by (rule halved_values_eq [OF xs2])
  have pos: "1 \<le> c div 2" using c2 by presburger
  then have mc: "max 1 (c div 2) = c div 2" by (simp add: max_def)
  have "sum_list (map (\<lambda>c. c div 2) (map snd ds)) \<le> sum_list (map snd ds) div 2"
    by (rule sum_halves_le)
  then have le: "S \<le> H" using Cons x hv mc by (simp add: S_def H_def)
  have eqH: "sum_list (map snd ds) div 2 = H" using Cons x by (simp add: H_def)
  have ho: "halve_order ds =
      (if S \<noteq> H then ((n, max 1 (max 1 (c div 2) + (H - S))) # hs, H)
       else ((n, max 1 (c div 2)) # hs, S))"
    unfolding Cons x halve_order_Cons Let_def hs_def S_def H_def ..
  show ?thesis
  proof (cases "S = H")
    case True
    then show ?thesis using ho eqH by (simp add: S_def)
  next
    case False
    have "max 1 (max 1 (c div 2) + (H - S)) = max 1 (c div 2) + (H - S)"
      using le pos mc by (simp add: max_def)
    then have "sum_list (map snd (fst (halve_order ds))) = max 1 (c div 2) + (H - S) + sum_list (map snd hs)"
      using ho False by simp
    also have "\<dots> = H" by (simp add: S_def)
    finally show ?thesis using eqH by simp
  qed
qed

lemma get_saved_active_order:
  "get_active_order (save_active_order d uid ds t) uid = Some \<lparr>dishes = ds, tag = t\<rparr>"
  by (simp add: get_active_order_def save_active_order_def)

text \<open>
  Claim C3, amended. When the next order of a user triggers the \<^verbatim>\<open>half_new_order\<close>
  directive and the generator returns the order \<open>ds\<close>, the call saves an active order under
  the directive's tag in which every point value is at least 1; and the saved values sum
  to \<open>floor(T/2)\<close>, \<open>T\<close> the point total of \<open>ds\<close>, whenever every point value of \<open>ds\<close> is at
  least 2. (With a smaller value the first dish is clamped at 1 by
  \<^verbatim>\<open>max(1, val0 + diff)\<close> and the sum can exceed \<open>floor(T/2)\<close>.)
\<close>

theorem half_new_order_values:
  assumes "special_result check d u = Some (tg, cfg)"
    and "cfg_type cfg = Some ''half_new_order''"
    and "cfg_text_template cfg = Some tmpl"
    and "generate_regular_order cat r sh (level u) = Some (Inr ds)"
  shows "\<exists>t d' hs.
           vk_new_order_logic cat check r sh d u uid fname = Some (Inr (t, d')) \<and>
           get_active_order d' (user_id u) = Some \<lparr>dishes = hs, tag = Some tg\<rparr> \<and>
           (\<forall>x\<in>set hs. 1 \<le> snd x) \<and>
           ((\<forall>x\<in>set ds. 2 \<le> snd x) \<longrightarrow>
              sum_list (map snd hs) = sum_list (map snd ds) div 2)"
proof -
  obtain hs hc where h: "halve_order ds = (hs, hc)" by (cases "halve_order ds")
  then have hs: "hs = fst (halve_order ds)" by simp
  have "vk_new_order_logic cat check r sh d u uid fname =
      Some (Inr (HalfTemplate tmpl
                   (format_vk_user_mention uid (if first_name u \<noteq> [] then first_name u else fname))
                   hc hs,
                 save_active_order d (user_id u) hs (Some tg)))"
    using assms h by (simp add: vk_new_order_logic_def Let_def)
  moreover have "\<forall>x\<in>set hs. 1 \<le> snd x"
    unfolding hs by (rule halve_order_positive)
  moreover have "(\<forall>x\<in>set ds. 2 \<le> snd x) \<longrightarrow>
      sum_list (map snd hs) = sum_list (map snd ds) div 2"
    unfolding hs using halve_order_sum [of ds] by blast
  ultimately show ?thesis
    using get_saved_active_order [of d "user_id u" hs "Some tg"] by blast
qed

lemma demo_enough_dishes: "enough_dishes (demo_catalog 10 20 30) 0"
  by (simp add: enough_dishes_def demo_catalog_def opened_def dishes_at_def upto_rec1)

lemma is_shuffle_id: "is_shuffle (\<lambda>xs. xs)"
  by (simp add: is_shuffle_def)

lemma demo_small_generate:
  "generate_regular_order demo_small_catalog 0 (\<lambda>xs. xs) 0 = None"
proof -
  have "backfill [(''tea'', 10), (''pie'', 20)] [(''tea'', 10), (''pie'', 20)] = None"
    by (rule backfill_stuck) simp_all
  then show ?thesis
    by (simp add: demo_small_catalog_def generate_regular_order_def opened_def dishes_at_def
        random_choice_def Let_def upto_rec1)
qed

lemma regular_order_returns:
  assumes "0 \<le> level u" and "enough_dishes cat (level u)" and "is_shuffle sh"
  shows "\<exists>ds. generate_regular_order cat r sh (level u) = Some (Inr ds) \<and> length ds = 3 \<and>
           regular_order cat r sh d u m =
             Some (Inr (NEW_ORDER_MESSAGE m (order_index (total_orders u)) ds
                          (sum_list (map snd ds)),
                        save_active_order d (user_id u) ds None))"
proof -
  from generate_regular_order_returns [OF assms, of r]
  obtain ds where g: "generate_regular_order cat r sh (level u) = Some (Inr ds)"
    and len: "length ds = 3" by blast
  from g have "regular_order cat r sh d u m =
      Some (Inr (NEW_ORDER_MESSAGE m (order_index (total_orders u)) ds (sum_list (map snd ds)),
                 save_active_order d (user_id u) ds None))"
    by (simp add: regular_order_def Let_def)
  with g len show ?thesis by blast
qed

lemma regular_order_saved:
  "regular_order cat r sh d u m = Some (Inr (t', d')) \<Longrightarrow>
   \<exists>ds. generate_regular_order cat r sh (level u) = Some (Inr ds) \<and>
        get_active_order d' (user_id u) = Some \<lparr>dishes = ds, tag = None\<rparr>"
  by (auto simp: regular_order_def Let_def get_saved_active_order
      split: option.splits sum.splits)

text \<open>
  Claim C4, amended. For every user whose Last Completed Order carries a special tag (a
  user with at least one completed order, whose last order has a non-empty tag), the next
  order generation does not evaluate the special-order rules, whatever the rules, the
  order index and the flags are; whenever the call returns an order, it is the generated
  regular order, saved without a tag; and the call does return such an order of 3 dishes
  when the user's level is at least 0 and the catalog has level 0, a non-empty anchor pool
  and at least three different dishes in the levels unlocked at that level.
\<close>

theorem special_order_suppressed:
  assumes "0 < total_orders u"
    and "get_last_order d (user_id u) = Some lo"
    and "last_tag lo = Some t" and "t \<noteq> []"
  shows "special_result check d u = None \<and>
         (\<forall>t' d'. vk_new_order_logic cat check r sh d u uid fname = Some (Inr (t', d')) \<longrightarrow>
            (\<exists>ds. generate_regular_order cat r sh (level u) = Some (Inr ds) \<and>
                  get_active_order d' (user_id u) = Some \<lparr>dishes = ds, tag = None\<rparr>)) \<and>
         (0 \<le> level u \<and> enough_dishes cat (level u) \<and> is_shuffle sh \<longrightarrow>
            (\<exists>ds t' d'. generate_regular_order cat r sh (level u) = Some (Inr ds) \<and>
               length ds = 3 \<and>
               vk_new_order_logic cat check r sh d u uid fname = Some (Inr (t', d')) \<and>
               get_active_order d' (user_id u) = Some \<lparr>dishes = ds, tag = None\<rparr>))"
proof -
  let ?m = "format_vk_user_mention uid (if first_name u \<noteq> [] then first_name u else fname)"
  have sp: "last_order_was_special d u"
    using assms by (simp add: last_order_was_special_def)
  then have sr: "special_result check d u = None" by (simp add: special_result_def)
  then have eq: "vk_new_order_logic cat check r sh d u uid fname = regular_order cat r sh d u ?m"
    by (simp add: vk_new_order_logic_def Let_def)
  have partial: "\<forall>t' d'. vk_new_order_logic cat check r sh d u uid fname = Some (Inr (t', d')) \<longrightarrow>
      (\<exists>ds. generate_regular_order cat r sh (level u) = Some (Inr ds) \<and>
            get_active_order d' (user_id u) = Some \<lparr>dishes = ds, tag = None\<rparr>)"
    unfolding eq using regular_order_saved by blast
  have total: "\<exists>ds t' d'. generate_regular_order cat r sh (level u) = Some (Inr ds) \<and>
        length ds = 3 \<and>
        vk_new_order_logic cat check r sh d u uid fname = Some (Inr (t', d')) \<and>
        get_active_order d' (user_id u) = Some \<lparr>dishes = ds, tag = None\<rparr>"
    if "0 \<le> level u" "enough_dishes cat (level u)" "is_shuffle sh"
  proof -
    from regular_order_returns [OF that, of r d ?m]
    obtain ds where g: "generate_regular_order cat r sh (level u) = Some (Inr ds)"
      and len: "length ds = 3"
      and ro: "regular_order cat r sh d u ?m =
        Some (Inr (NEW_ORDER_MESSAGE ?m (order_index (total_orders u)) ds (sum_list (map snd ds)),
                   save_active_order d (user_id u) ds None))" by blast
    from g len ro eq get_saved_active_order [of d "user_id u" ds None] show ?thesis by metis
  qed
  from sr partial total show ?thesis by blast
qed

text \<open>
  Claim C5, amended. When the next order of a user triggers the \<^verbatim>\<open>double_previous\<close>
  directive: if the user has a Last Completed Order, the saved active order has the same
  dish names in the same positions and every point value doubled (and carries the
  directive's tag); if the user has none, no special order is produced: whenever the call
  returns an order, it is the generated regular order, saved without a tag, and the call
  does return such an order of 3 dishes when the user's level is at least 0 and the
  catalog has level 0, a non-empty anchor pool and at least three different dishes in the
  levels unlocked at that level.
\<close>

theorem double_previous_order:
  assumes "special_result check d u = Some (tg, cfg)"
    and "cfg_type cfg = Some ''double_previous''"
    and "cfg_text_template cfg = Some tmpl"
  shows "case get_last_order d (user_id u) of
           Some lo \<Rightarrow>
             (\<exists>t d' ds. vk_new_order_logic cat check r sh d u uid fname = Some (Inr (t, d')) \<and>
                get_active_order d' (user_id u) = Some \<lparr>dishes = ds, tag = Some tg\<rparr> \<and>
                map fst ds = map fst (last_dishes lo) \<and>
                map snd ds = map (\<lambda>c. 2 * c) (map snd (last_dishes lo)))
         | None \<Rightarrow>
             (\<forall>t d'. vk_new_order_logic cat check r sh d u uid fname = Some (Inr (t, d')) \<longrightarrow>
                (\<exists>ds. generate_regular_order cat r sh (level u) = Some (Inr ds) \<and>
                      get_active_order d' (user_id u) = Some \<lparr>dishes = ds, tag = None\<rparr>)) \<and>
             (0 \<le> level u \<and> enough_dishes cat (level u) \<and> is_shuffle sh \<longrightarrow>
                (\<exists>ds t d'. generate_regular_order cat r sh (level u) = Some (Inr ds) \<and>
                   length ds = 3 \<and>
                   vk_new_order_logic cat check r sh d u uid fname = Some (Inr (t, d')) \<and>
                   get_active_order d' (user_id u) = Some \<lparr>dishes = ds, tag = None\<rparr>))"
proof (cases "get_last_order d (user_id u)")
  case None
  let ?m = "format_vk_user_mention uid (if first_name u \<noteq> [] then first_name u else fname)"
  from assms None
  have eq: "vk_new_order_logic cat check r sh d u uid fname = regular_order cat r sh d u ?m"
    by (simp add: vk_new_order_logic_def Let_def)
  have partial: "\<forall>t d'. vk_new_order_logic cat check r sh d u uid fname = Some (Inr (t, d')) \<longrightarrow>
      (\<exists>ds. generate_regular_order cat r sh (level u) = Some (Inr ds) \<and>
            get_active_order d' (user_id u) = Some \<lparr>dishes = ds, tag = None\<rparr>)"
    unfolding eq using regular_order_saved by blast
  have total: "\<exists>ds t d'. generate_regular_order cat r sh (level u) = Some (Inr ds) \<and>
        length ds = 3 \<and>
        vk_new_order_logic cat check r sh d u uid fname = Some (Inr (t, d')) \<and>
        get_active_order d' (user_id u) = Some \<lparr>dishes = ds, tag = None\<rparr>"
    if "0 \<le> level u" "enough_dishes cat (level u)" "is_shuffle sh"
  proof -
    from regular_order_returns [OF that, of r d ?m]
    obtain ds where g: "generate_regular_order cat r sh (level u) = Some (Inr ds)"
      and len: "length ds = 3"
      and ro: "regular_order cat r sh d u ?m =
        Some (Inr (NEW_ORDER_MESSAGE ?m (order_index (total_orders u)) ds (sum_list (map snd ds)),
                   save_active_order d (user_id u) ds None))" by blast
    from g len ro eq get_saved_active_order [of d "user_id u" ds None] show ?thesis by metis
  qed
  from partial total None show ?thesis by simp
next
  case (Some lo)
  define ds where "ds = map (\<lambda>(name, crosses). (name, crosses * 2)) (last_dishes lo)"
  have n: "map fst ds = map fst (last_dishes lo)"
    unfolding ds_def by (induction "last_dishes lo") auto
  have v: "map snd ds = map (\<lambda>c. 2 * c) (map snd (last_dishes lo))"
    unfolding ds_def by (induction "last_dishes lo") auto
  have "vk_new_order_logic cat check r sh d u uid fname =
      Some (Inr (DoubledTemplate tmpl
                   (format_vk_user_mention uid (if first_name u \<noteq> [] then first_name u else fname))
                   (last_crosses lo * 2),
                 save_active_order d (user_id u) ds (Some tg)))"
    using assms Some by (simp add: vk_new_order_logic_def Let_def ds_def)
  with n v get_saved_active_order [of d "user_id u" ds "Some tg"] Some show ?thesis
    by auto
qed

text \<open>
  Claim C6. For every user who already has an Active Order, \<^verbatim>\<open>handle_new\<close> sends the
  \<^verbatim>\<open>ALREADY_HAS_ORDER\<close> reply to the peer and returns the store it was given: no order is
  generated or saved, and the active order and the user record are unchanged.
\<close>

theorem handle_new_rejects_second_order:
  assumes "users d uid = Some u" and "user_id u = uid"
    and "get_active_order d uid = Some ao"
  shows "handle_new cat check r sh names a (d, out) uid peer =
           Some (Inr (d, send_message a peer
             (ALREADY_HAS_ORDER
                (format_vk_user_mention uid
                   (if first_name u \<noteq> [] then first_name u else names uid))) out))"
  using assms by (simp add: handle_new_def fetch_user_def Let_def)

lemma demo_generate:
  "generate_regular_order (demo_catalog a b c) 0 (\<lambda>xs. xs) 0
     = Some (Inr [(''tea'', a), (''pie'', b), (''jam'', c)])"
  by (simp add: demo_catalog_def generate_regular_order_def opened_def dishes_at_def
      random_choice_def backfill_done Let_def upto_rec1)

theorem half_new_order_values_witness:
  "special_result (demo_rules ''half_new_order'') (demo_db None None) (demo_user 1)
     = Some (''special'', \<lparr>cfg_type = Some ''half_new_order'',
                            cfg_text_template = Some ''template'', cfg_dish = None\<rparr>) \<and>
   generate_regular_order (demo_catalog 11 21 31) 0 (\<lambda>xs. xs) (level (demo_user 1))
     = Some (Inr [(''tea'', 11), (''pie'', 21), (''jam'', 31)]) \<and>
   (\<exists>t d' hs.
      vk_new_order_logic (demo_catalog 11 21 31) (demo_rules ''half_new_order'') 0 (\<lambda>xs. xs)
        (demo_db None None) (demo_user 1) 7 ''Ann'' = Some (Inr (t, d')) \<and>
      get_active_order d' 7 = Some \<lparr>dishes = hs, tag = Some ''special''\<rparr> \<and>
      (\<forall>x\<in>set hs. 1 \<le> snd x) \<and>
      sum_list (map snd hs) = 31)"
proof -
  let ?cfg = "\<lparr>cfg_type = Some ''half_new_order'', cfg_text_template = Some ''template'',
                cfg_dish = None\<rparr>"
  have h1: "special_result (demo_rules ''half_new_order'') (demo_db None None) (demo_user 1)
      = Some (''special'', ?cfg)"
    by (simp add: special_result_def last_order_was_special_def get_last_order_def
        demo_rules_def demo_db_def demo_user_def)
  have h2: "cfg_type ?cfg = Some ''half_new_order''" by simp
  have h3: "cfg_text_template ?cfg = Some ''template''" by simp
  have h4: "generate_regular_order (demo_catalog 11 21 31) 0 (\<lambda>xs. xs) (level (demo_user 1))
      = Some (Inr [(''tea'', 11), (''pie'', 21), (''jam'', 31)])"
    by (simp add: demo_user_def demo_generate)
  have u: "user_id (demo_user 1) = 7" by (simp add: demo_user_def)
  from half_new_order_values [OF h1 h2 h3 h4, of 7 "''Ann''"] h1 h4 u show ?thesis
    by simp
qed

text \<open>
  Claim C3 as stated fails: on the generated order tea 1, pie 1, jam 4 the total is 6 and
  \<open>floor(6/2) = 3\<close>, the halved values are 1, 1, 2, the residual is \<open>-1\<close>, the first value is
  clamped to \<open>max(1, 0) = 1\<close>, and the saved order sums to 4 while the text announces 3.
\<close>

theorem half_new_order_sum_counterexample:
  "generate_regular_order (demo_catalog 1 1 4) 0 (\<lambda>xs. xs) (level (demo_user 1))
     = Some (Inr [(''tea'', 1), (''pie'', 1), (''jam'', 4)]) \<and>
   vk_new_order_logic (demo_catalog 1 1 4) (demo_rules ''half_new_order'') 0 (\<lambda>xs. xs)
       (demo_db None None) (demo_user 1) 7 ''Ann''
     = Some (Inr (HalfTemplate ''template'' (7, ''Ann'') 3
                    [(''tea'', 1), (''pie'', 1), (''jam'', 2)],
                  save_active_order (demo_db None None) 7
                    [(''tea'', 1), (''pie'', 1), (''jam'', 2)] (Some ''special''))) \<and>
   sum_list (map snd [(''tea'', 1), (''pie'', 1), (''jam'', 2::int)])
     \<noteq> sum_list (map snd [(''tea'', 1), (''pie'', 1), (''jam'', 4::int)]) div 2"
proof -
  have sr: "special_result (demo_rules ''half_new_order'') (demo_db None None) (demo_user 1)
      = Some (''special'', \<lparr>cfg_type = Some ''half_new_order'',
                             cfg_text_template = Some ''template'', cfg_dish = None\<rparr>)"
    by (simp add: special_result_def last_order_was_special_def get_last_order_def
        demo_rules_def demo_db_def demo_user_def)
  have g: "generate_regular_order (demo_catalog 1 1 4) 0 (\<lambda>xs. xs) (level (demo_user 1))
      = Some (Inr [(''tea'', 1), (''pie'', 1), (''jam'', 4)])"
    by (simp add: demo_user_def demo_generate)
  have h: "halve_order [(''tea'', 1), (''pie'', 1), (''jam'', 4)]
      = ([(''tea'', 1), (''pie'', 1), (''jam'', 2)], 3)"
    by (simp add: halve_order_def)
  have u: "user_id (demo_user 1) = 7" "first_name (demo_user 1) = ''Ann''"
    by (simp_all add: demo_user_def)
  show ?thesis
    using sr g h u by (simp add: vk_new_order_logic_def format_vk_user_mention_def)
qed

theorem special_order_suppressed_witness:
  "0 < total_orders (demo_user 1) \<and>
   get_last_order
       (demo_db (Some \<lparr>last_dishes = [(''tea'', 10)], last_crosses = 10,
                       last_tag = Some ''critic''\<rparr>) None) (user_id (demo_user 1))
     = Some \<lparr>last_dishes = [(''tea'', 10)], last_crosses = 10, last_tag = Some ''critic''\<rparr> \<and>
   0 \<le> level (demo_user 1) \<and> enough_dishes (demo_catalog 10 20 30) (level (demo_user 1)) \<and>
   is_shuffle (\<lambda>xs. xs) \<and>
   special_result (demo_rules ''half_new_order'')
       (demo_db (Some \<lparr>last_dishes = [(''tea'', 10)], last_crosses = 10,
                       last_tag = Some ''critic''\<rparr>) None) (demo_user 1) = None \<and>
   (\<exists>t' d'. vk_new_order_logic (demo_catalog 10 20 30) (demo_rules ''half_new_order'') 0
          (\<lambda>xs. xs)
          (demo_db (Some \<lparr>last_dishes = [(''tea'', 10)], last_crosses = 10,
                          last_tag = Some ''critic''\<rparr>) None) (demo_user 1) 7 ''Ann''
        = Some (Inr (t', d')) \<and>
      get_active_order d' 7
        = Some \<lparr>dishes = [(''tea'', 10), (''pie'', 20), (''jam'', 30)], tag = None\<rparr>)"
proof -
  let ?lo = "\<lparr>last_dishes = [(''tea'', 10)], last_crosses = 10, last_tag = Some ''critic''\<rparr>"
  have h1: "0 < total_orders (demo_user 1)" by (simp add: demo_user_def)
  have h2: "get_last_order (demo_db (Some ?lo) None) (user_id (demo_user 1)) = Some ?lo"
    by (simp add: get_last_order_def demo_db_def demo_user_def)
  have h3: "last_tag ?lo = Some ''critic''" by simp
  have h4: "''critic'' \<noteq> []" by simp
  have lv: "level (demo_user 1) = 0" and u: "user_id (demo_user 1) = 7"
    by (simp_all add: demo_user_def)
  have en: "enough_dishes (demo_catalog 10 20 30) (level (demo_user 1))"
    unfolding lv by (rule demo_enough_dishes)
  note th = special_order_suppressed [OF h1 h2 h3 h4, of "demo_rules ''half_new_order''"
      "demo_catalog 10 20 30" 0 "\<lambda>xs. xs" 7 "''Ann''"]
  from th have sr: "special_result (demo_rules ''half_new_order'') (demo_db (Some ?lo) None)
      (demo_user 1) = None" by blast
  from th en is_shuffle_id lv
  have "\<exists>ds t' d'. generate_regular_order (demo_catalog 10 20 30) 0 (\<lambda>xs. xs) (level (demo_user 1))
          = Some (Inr ds) \<and> length ds = 3 \<and>
        vk_new_order_logic (demo_catalog 10 20 30) (demo_rules ''half_new_order'') 0 (\<lambda>xs. xs)
          (demo_db (Some ?lo) None) (demo_user 1) 7 ''Ann'' = Some (Inr (t', d')) \<and>
        get_active_order d' (user_id (demo_user 1)) = Some \<lparr>dishes = ds, tag = None\<rparr>"
    by simp
  then have "\<exists>t' d'. vk_new_order_logic (demo_catalog 10 20 30) (demo_rules ''half_new_order'') 0
          (\<lambda>xs. xs) (demo_db (Some ?lo) None) (demo_user 1) 7 ''Ann'' = Some (Inr (t', d')) \<and>
        get_active_order d' 7
          = Some \<lparr>dishes = [(''tea'', 10), (''pie'', 20), (''jam'', 30)], tag = None\<rparr>"
    unfolding lv u demo_generate by auto
  with h1 h2 lv en is_shuffle_id sr show ?thesis by simp
qed

text \<open>
  Claim C4 as stated fails in its second half: on the catalog with the two level-0 dishes
  tea and pie, the call for a user whose last order is tagged never returns, so no
  regular order is produced.
\<close>

theorem special_order_suppressed_counterexample:
  "0 < total_orders (demo_user 1) \<and>
   get_last_order
       (demo_db (Some \<lparr>last_dishes = [(''tea'', 10)], last_crosses = 10,
                       last_tag = Some ''critic''\<rparr>) None) (user_id (demo_user 1))
     = Some \<lparr>last_dishes = [(''tea'', 10)], last_crosses = 10, last_tag = Some ''critic''\<rparr> \<and>
   vk_new_order_logic demo_small_catalog (demo_rules ''half_new_order'') 0 (\<lambda>xs. xs)
       (demo_db (Some \<lparr>last_dishes = [(''tea'', 10)], last_crosses = 10,
                       last_tag = Some ''critic''\<rparr>) None) (demo_user 1) 7 ''Ann'' = None"
proof -
  let ?lo = "\<lparr>last_dishes = [(''tea'', 10)], last_crosses = 10, last_tag = Some ''critic''\<rparr>"
  have h1: "0 < total_orders (demo_user 1)" by (simp add: demo_user_def)
  have h2: "get_last_order (demo_db (Some ?lo) None) (user_id (demo_user 1)) = Some ?lo"
    by (simp add: get_last_order_def demo_db_def demo_user_def)
  have sr: "special_result (demo_rules ''half_new_order'') (demo_db (Some ?lo) None)
      (demo_user 1) = None"
    using h1 h2 by (simp add: special_result_def last_order_was_special_def)
  have lv: "level (demo_user 1) = 0" by (simp add: demo_user_def)
  have "vk_new_order_logic demo_small_catalog (demo_rules ''half_new_order'') 0 (\<lambda>xs. xs)
       (demo_db (Some ?lo) None) (demo_user 1) 7 ''Ann'' = None"
    using sr demo_small_generate
    by (simp add: vk_new_order_logic_def regular_order_def Let_def lv)
  with h1 h2 show ?thesis by simp
qed

theorem double_previous_order_witness:
  "special_result (demo_rules ''double_previous'')
       (demo_db (Some \<lparr>last_dishes = [(''tea'', 10), (''pie'', 25)], last_crosses = 35,
                       last_tag = None\<rparr>) None) (demo_user 1)
     = Some (''special'', \<lparr>cfg_type = Some ''double_previous'',
                            cfg_text_template = Some ''template'', cfg_dish = None\<rparr>) \<and>
   (\<exists>t d' ds. vk_new_order_logic (demo_catalog 10 20 30) (demo_rules ''double_previous'') 0
         (\<lambda>xs. xs)
         (demo_db (Some \<lparr>last_dishes = [(''tea'', 10), (''pie'', 25)], last_crosses = 35,
                         last_tag = None\<rparr>) None) (demo_user 1) 7 ''Ann''
       = Some (Inr (t, d')) \<and>
     get_active_order d' 7 = Some \<lparr>dishes = ds, tag = Some ''special''\<rparr> \<and>
     map fst ds = [''tea'', ''pie''] \<and> map snd ds = [20, 50]) \<and>
   special_result (demo_rules ''double_previous'') (demo_db None None) (demo_user 1)
     = Some (''special'', \<lparr>cfg_type = Some ''double_previous'',
                            cfg_text_template = Some ''template'', cfg_dish = None\<rparr>) \<and>
   get_last_order (demo_db None None) (user_id (demo_user 1)) = None \<and>
   0 \<le> level (demo_user 1) \<and> enough_dishes (demo_catalog 10 20 30) (level (demo_user 1)) \<and>
   is_shuffle (\<lambda>xs. xs) \<and>
   (\<exists>t d'. vk_new_order_logic (demo_catalog 10 20 30) (demo_rules ''double_previous'') 0
         (\<lambda>xs. xs) (demo_db None None) (demo_user 1) 7 ''Ann'' = Some (Inr (t, d')) \<and>
     get_active_order d' 7
       = Some \<lparr>dishes = [(''tea'', 10), (''pie'', 20), (''jam'', 30)], tag = None\<rparr>)"
proof -
  let ?lo = "\<lparr>last_dishes = [(''tea'', 10), (''pie'', 25)], last_crosses = 35, last_tag = None\<rparr>"
  let ?cfg = "\<lparr>cfg_type = Some ''double_previous'', cfg_text_template = Some ''template'',
                cfg_dish = None\<rparr>"
  have h1: "special_result (demo_rules ''double_previous'') (demo_db (Some ?lo) None)
      (demo_user 1) = Some (''special'', ?cfg)"
    by (simp add: special_result_def last_order_was_special_def get_last_order_def
        demo_rules_def demo_db_def demo_user_def)
  have g1: "special_result (demo_rules ''double_previous'') (demo_db None None)
      (demo_user 1) = Some (''special'', ?cfg)"
    by (simp add: special_result_def last_order_was_special_def get_last_order_def
        demo_rules_def demo_db_def demo_user_def)
  have h2: "cfg_type ?cfg = Some ''double_previous''" by simp
  have h3: "cfg_text_template ?cfg = Some ''template''" by simp
  have lo: "get_last_order (demo_db (Some ?lo) None) (user_id (demo_user 1)) = Some ?lo"
    by (simp add: get_last_order_def demo_db_def demo_user_def)
  have nolo: "get_last_order (demo_db None None) (user_id (demo_user 1)) = None"
    by (simp add: get_last_order_def demo_db_def demo_user_def)
  have u: "user_id (demo_user 1) = 7" and lv: "level (demo_user 1) = 0"
    by (simp_all add: demo_user_def)
  have en: "enough_dishes (demo_catalog 10 20 30) (level (demo_user 1))"
    unfolding lv by (rule demo_enough_dishes)
  have a: "\<exists>t d' ds. vk_new_order_logic (demo_catalog 10 20 30) (demo_rules ''double_previous'') 0
         (\<lambda>xs. xs) (demo_db (Some ?lo) None) (demo_user 1) 7 ''Ann'' = Some (Inr (t, d')) \<and>
     get_active_order d' 7 = Some \<lparr>dishes = ds, tag = Some ''special''\<rparr> \<and>
     map fst ds = [''tea'', ''pie''] \<and> map snd ds = [20, 50]"
    using double_previous_order [OF h1 h2 h3, of "demo_catalog 10 20 30" 0 "\<lambda>xs. xs" 7 "''Ann''"]
      lo u by simp
  have "\<exists>ds t d'. generate_regular_order (demo_catalog 10 20 30) 0 (\<lambda>xs. xs) (level (demo_user 1))
          = Some (Inr ds) \<and> length ds = 3 \<and>
        vk_new_order_logic (demo_catalog 10 20 30) (demo_rules ''double_previous'') 0 (\<lambda>xs. xs)
          (demo_db None None) (demo_user 1) 7 ''Ann'' = Some (Inr (t, d')) \<and>
        get_active_order d' (user_id (demo_user 1)) = Some \<lparr>dishes = ds, tag = None\<rparr>"
    using double_previous_order [OF g1 h2 h3, of "demo_catalog 10 20 30" 0 "\<lambda>xs. xs" 7 "''Ann''"]
      nolo en is_shuffle_id lv by simp
  then have b: "\<exists>t d'. vk_new_order_logic (demo_catalog 10 20 30) (demo_rules ''double_previous'') 0
         (\<lambda>xs. xs) (demo_db None None) (demo_user 1) 7 ''Ann'' = Some (Inr (t, d')) \<and>
     get_active_order d' 7
       = Some \<lparr>dishes = [(''tea'', 10), (''pie'', 20), (''jam'', 30)], tag = None\<rparr>"
    unfolding lv u demo_generate by auto
  from h1 a g1 nolo lv en is_shuffle_id b show ?thesis by simp
qed

text \<open>
  Claim C5 as stated fails in its second half: with no Last Completed Order and the
  catalog with the two level-0 dishes tea and pie, the call never returns, so no regular
  order is generated.
\<close>

theorem double_previous_order_counterexample:
  "special_result (demo_rules ''double_previous'') (demo_db None None) (demo_user 1)
     = Some (''special'', \<lparr>cfg_type = Some ''double_previous'',
                            cfg_text_template = Some ''template'', cfg_dish = None\<rparr>) \<and>
   get_last_order (demo_db None None) (user_id (demo_user 1)) = None \<and>
   vk_new_order_logic demo_small_catalog (demo_rules ''double_previous'') 0 (\<lambda>xs. xs)
       (demo_db None None) (demo_user 1) 7 ''Ann'' = None"
proof -
  let ?cfg = "\<lparr>cfg_type = Some ''double_previous'', cfg_text_template = Some ''template'',
                cfg_dish = None\<rparr>"
  have g1: "special_result (demo_rules ''double_previous'') (demo_db None None)
      (demo_user 1) = Some (''special'', ?cfg)"
    by (simp add: special_result_def last_order_was_special_def get_last_order_def
        demo_rules_def demo_db_def demo_user_def)
  have nolo: "get_last_order (demo_db None None) (user_id (demo_user 1)) = None"
    by (simp add: get_last_order_def demo_db_def demo_user_def)
  have lv: "level (demo_user 1) = 0" by (simp add: demo_user_def)
  have "vk_new_order_logic demo_small_catalog (demo_rules ''double_previous'') 0 (\<lambda>xs. xs)
       (demo_db None None) (demo_user 1) 7 ''Ann'' = None"
    using g1 nolo demo_small_generate
    by (simp add: vk_new_order_logic_def regular_order_def Let_def lv)
  with g1 nolo show ?thesis by simp
qed

theorem handle_new_rejects_second_order_witness:
  "users (demo_db None (Some \<lparr>dishes = [(''tea'', 10)], tag = None\<rparr>)) 7 = Some (demo_user 1) \<and>
   user_id (demo_user 1) = 7 \<and>
   get_active_order (demo_db None (Some \<lparr>dishes = [(''tea'', 10)], tag = None\<rparr>)) 7
     = Some \<lparr>dishes = [(''tea'', 10)], tag = None\<rparr> \<and>
   handle_new (demo_catalog 10 20 30) (demo_rules ''double_previous'') 0 (\<lambda>xs. xs)
       (\<lambda>uid. ''Guest'') (\<lambda>peer t. None)
       (demo_db None (Some \<lparr>dishes = [(''tea'', 10)], tag = None\<rparr>), []) 7 2000000001
     = Some (Inr (demo_db None (Some \<lparr>dishes = [(''tea'', 10)], tag = None\<rparr>),
                  [Delivered 2000000001 (ALREADY_HAS_ORDER (7, ''Ann''))]))"
proof -
  let ?d = "demo_db None (Some \<lparr>dishes = [(''tea'', 10)], tag = None\<rparr>)"
  have h1: "users ?d 7 = Some (demo_user 1)" by (simp add: demo_db_def)
  have h2: "user_id (demo_user 1) = 7" by (simp add: demo_user_def)
  have h3: "get_active_order ?d 7 = Some \<lparr>dishes = [(''tea'', 10)], tag = None\<rparr>"
    by (simp add: get_active_order_def demo_db_def)
  have u: "first_name (demo_user 1) = ''Ann''" by (simp add: demo_user_def)
  from handle_new_rejects_second_order [OF h1 h2 h3, of "demo_catalog 10 20 30"
      "demo_rules ''double_previous''" 0 "\<lambda>xs. xs" "\<lambda>uid. ''Guest''" "\<lambda>peer t. None" "[]"
      2000000001] h1 h2 h3 u
  show ?thesis by (simp add: send_message_def format_vk_user_mention_def)
qed

section \<open>Properties of the long-poll loop and of the statistics\<close>

lemma strip_blank:
  assumes "\<forall>c\<in>set s. is_space c"
  shows "strip s = []"
proof -
  have d: "dropWhile is_space s = []" using assms by (induction s) simp_all
  show ?thesis unfolding strip_def d by simp
qed

text \<open>
  Claim C7. For every response of the long poll whose body contains a \<^verbatim>\<open>failed\<close> field:
  if the code equals 1, the loop goes on to the next poll with the \<^verbatim>\<open>ts\<close> of the same
  payload (the old \<^verbatim>\<open>ts\<close> when the payload has none) and with the same server and key;
  for any other code it calls \<^verbatim>\<open>get_longpoll_server()\<close>, and the next poll is issued with
  the triple that the call returned (when the call raises, the exception leaves the loop
  and there is no next poll).
\<close>

theorem failed_response_handling:
  assumes "jget kvs ''failed'' = Some code"
  shows "if equals_one code
         then \<exists>st'. longpoll_iteration allowed loads run unknown (PollData (JObj kvs)) rf (st, w)
                       = Some (Inr (st', w)) \<and>
                     server st' = server st \<and> key st' = key st \<and>
                     ts st' = (case jget kvs ''ts'' of None \<Rightarrow> ts st | Some t \<Rightarrow> t)
         else (case rf of
                 Inr (sv, k, t) \<Rightarrow>
                   \<exists>st'. longpoll_iteration allowed loads run unknown (PollData (JObj kvs)) rf (st, w)
                           = Some (Inr (st', w)) \<and>
                         server st' = sv \<and> key st' = k \<and> ts st' = t
               | Inl e \<Rightarrow>
                   longpoll_iteration allowed loads run unknown (PollData (JObj kvs)) rf (st, w)
                     = Some (Inl e))"
  using assms
  by (auto simp: longpoll_iteration_def Let_def split: sum.splits option.splits)

theorem failed_response_handling_witness:
  "jget [(''failed'', JInt 1), (''ts'', JStr ''500'')] ''failed'' = Some (JInt 1) \<and>
   (\<exists>st'. longpoll_iteration None (\<lambda>s. None) (\<lambda>c f p w. Some (Inr w)) (\<lambda>p w. w)
             (PollData (JObj [(''failed'', JInt 1), (''ts'', JStr ''500'')]))
             (Inl RuntimeError)
             (\<lparr>server = ''https://lp.vk.com/wh1'', key = ''k1'', ts = JStr ''499'', cycle = 0\<rparr>,
              ())
           = Some (Inr (st', ())) \<and>
         server st' = ''https://lp.vk.com/wh1'' \<and> key st' = ''k1'' \<and> ts st' = JStr ''500'') \<and>
   jget [(''failed'', JInt 2)] ''failed'' = Some (JInt 2) \<and>
   (\<exists>st'. longpoll_iteration None (\<lambda>s. None) (\<lambda>c f p w. Some (Inr w)) (\<lambda>p w. w)
             (PollData (JObj [(''failed'', JInt 2)]))
             (Inr (''https://lp.vk.com/wh2'', ''k2'', JStr ''7''))
             (\<lparr>server = ''https://lp.vk.com/wh1'', key = ''k1'', ts = JStr ''499'', cycle = 0\<rparr>,
              ())
           = Some (Inr (st', ())) \<and>
         server st' = ''https://lp.vk.com/wh2'' \<and> key st' = ''k2'' \<and> ts st' = JStr ''7'')"
proof -
  let ?st = "\<lparr>server = ''https://lp.vk.com/wh1'', key = ''k1'', ts = JStr ''499'', cycle = 0\<rparr>"
  have h1: "jget [(''failed'', JInt 1), (''ts'', JStr ''500'')] ''failed'' = Some (JInt 1)"
    by (simp add: jget_def)
  have h2: "jget [(''failed'', JInt 2)] ''failed'' = Some (JInt 2)"
    by (simp add: jget_def)
  have a: "\<exists>st'. longpoll_iteration None (\<lambda>s. None) (\<lambda>c f p w. Some (Inr w)) (\<lambda>p w. w)
             (PollData (JObj [(''failed'', JInt 1), (''ts'', JStr ''500'')]))
             (Inl RuntimeError) (?st, ()) = Some (Inr (st', ())) \<and>
         server st' = ''https://lp.vk.com/wh1'' \<and> key st' = ''k1'' \<and> ts st' = JStr ''500''"
    using failed_response_handling [OF h1, of None "\<lambda>s. None" "\<lambda>c f p w. Some (Inr w)"
      "\<lambda>p w. w" "Inl RuntimeError" ?st "()"]
    by (simp add: jget_def)
  have b: "\<exists>st'. longpoll_iteration None (\<lambda>s. None) (\<lambda>c f p w. Some (Inr w)) (\<lambda>p w. w)
             (PollData (JObj [(''failed'', JInt 2)]))
             (Inr (''https://lp.vk.com/wh2'', ''k2'', JStr ''7'')) (?st, ())
           = Some (Inr (st', ())) \<and>
         server st' = ''https://lp.vk.com/wh2'' \<and> key st' = ''k2'' \<and> ts st' = JStr ''7''"
    using failed_response_handling [OF h2, of None "\<lambda>s. None" "\<lambda>c f p w. Some (Inr w)"
      "\<lambda>p w. w" "Inr (''https://lp.vk.com/wh2'', ''k2'', JStr ''7'')" ?st "()"]
    by simp
  from h1 a h2 b show ?thesis by blast
qed

lemma poll_error_refetch_error_recovers:
  "longpoll_iteration allowed loads run unknown PollFailed (Inl e) (st, w) = Some (Inr (st, w))"
  by (simp add: longpoll_iteration_def)

text \<open>
  Claim C8 says that after startup no failure inside the loop ends it. The code catches
  only the exceptions of the poll request itself. The refetch after a \<^verbatim>\<open>failed\<close> code
  other than 1 is outside every \<^verbatim>\<open>try\<close>: on the response \<^verbatim>\<open>{"failed": 2}\<close> with
  \<^verbatim>\<open>get_longpoll_server()\<close> raising, the exception ends \<^verbatim>\<open>longpoll_loop\<close> and the second
  poll of the run below is never issued. (The same refetch after a failed request is
  inside \<^verbatim>\<open>try ... except Exception\<close>, shown in \<open>poll_error_refetch_error_recovers\<close>.)
\<close>

theorem failed_refetch_error_ends_loop:
  "longpoll_loop allowed loads run unknown
     [(PollData (JObj [(''failed'', JInt 2)]), Inl RuntimeError),
      (PollData (JObj [(''ts'', JStr ''501''), (''updates'', JList [])]), Inl RuntimeError)]
     (st, w) = Some (Inl RuntimeError)"
  by (simp add: longpoll_iteration_def jget_def)

text \<open>
  Claim C10. For every \<^verbatim>\<open>message_new\<close> event whose text is empty or consists only of
  whitespace, the dispatcher drops the event whatever the payload is and whatever
  \<^verbatim>\<open>json.loads\<close> would make of it: the route is \<open>Skip\<close>, no handler is called and the
  world is unchanged.
\<close>

theorem blank_text_dropped:
  assumes "jget u ''type'' = Some (JStr ''message_new'')"
    and "(case jget u ''object'' of None \<Rightarrow> JObj [] | Some v \<Rightarrow> v) = JObj obj"
    and "(case jget obj ''message'' of None \<Rightarrow> JObj [] | Some v \<Rightarrow> v) = JObj msg"
    and "jget msg ''text'' = Some (JStr s)"
    and "\<forall>c\<in>set s. is_space c"
  shows "route allowed loads (JObj u) = Inr Skip \<and>
         process_update allowed loads run unknown (JObj u) w = Some (Inr w)"
proof -
  have "message_text msg = Inr []"
    using assms(4) strip_blank [OF assms(5)] by (simp add: message_text_def strip_def)
  then have "route_message allowed loads msg = Inr Skip"
    by (simp add: route_message_def)
  then have "route allowed loads (JObj u) = Inr Skip"
    using assms(1-3) by (simp add: route_def)
  then show ?thesis by (simp add: process_update_def)
qed

theorem blank_text_dropped_witness:
  "jget [(''type'', JStr ''message_new''),
         (''object'', JObj [(''message'', JObj [(''text'', JStr ''  ''), (''from_id'', JInt 7),
            (''peer_id'', JInt 7), (''payload'', JStr ''{cmd: new}'')])])] ''type''
     = Some (JStr ''message_new'') \<and>
   jget [(''text'', JStr ''  ''), (''from_id'', JInt 7), (''peer_id'', JInt 7),
         (''payload'', JStr ''{cmd: new}'')] ''text'' = Some (JStr ''  '') \<and>
   route None (\<lambda>raw. Some (JObj [(''cmd'', JStr ''new'')]))
     (JObj [(''type'', JStr ''message_new''),
            (''object'', JObj [(''message'', JObj [(''text'', JStr ''  ''), (''from_id'', JInt 7),
               (''peer_id'', JInt 7), (''payload'', JStr ''{cmd: new}'')])])]) = Inr Skip \<and>
   process_update None (\<lambda>raw. Some (JObj [(''cmd'', JStr ''new'')]))
     (\<lambda>c f p w. Some (Inl RuntimeError)) (\<lambda>p w. w)
     (JObj [(''type'', JStr ''message_new''),
            (''object'', JObj [(''message'', JObj [(''text'', JStr ''  ''), (''from_id'', JInt 7),
               (''peer_id'', JInt 7), (''payload'', JStr ''{cmd: new}'')])])]) ()
     = Some (Inr ())"
proof -
  let ?msg = "[(''text'', JStr ''  ''), (''from_id'', JInt 7), (''peer_id'', JInt 7),
         (''payload'', JStr ''{cmd: new}'')]"
  let ?obj = "[(''message'', JObj ?msg)]"
  let ?u = "[(''type'', JStr ''message_new''), (''object'', JObj ?obj)]"
  have h1: "jget ?u ''type'' = Some (JStr ''message_new'')" by (simp add: jget_def)
  have h2: "(case jget ?u ''object'' of None \<Rightarrow> JObj [] | Some v \<Rightarrow> v) = JObj ?obj"
    by (simp add: jget_def)
  have h3: "(case jget ?obj ''message'' of None \<Rightarrow> JObj [] | Some v \<Rightarrow> v) = JObj ?msg"
    by (simp add: jget_def)
  have h4: "jget ?msg ''text'' = Some (JStr ''  '')" by (simp add: jget_def)
  have h5: "\<forall>c\<in>set ''  ''. is_space c" by (simp add: is_space_def)
  from blank_text_dropped [OF h1 h2 h3 h4 h5, of None "\<lambda>raw. Some (JObj [(''cmd'', JStr ''new'')])"
      "\<lambda>c f p w. Some (Inl RuntimeError)" "\<lambda>p w. w" "()"] h1 h4
  show ?thesis by simp
qed

lemma button_with_text_invokes_handler:
  "route None (\<lambda>raw. Some (JObj [(''cmd'', JStr ''new'')]))
     (JObj [(''type'', JStr ''message_new''),
            (''object'', JObj [(''message'', JObj [(''text'', JStr ''New order''),
               (''from_id'', JInt 7), (''peer_id'', JInt 8), (''payload'', JStr ''{cmd: new}'')])])])
     = Inr (Handler CmdNew 7 8)"
  by (simp add: route_def route_message_def message_text_def payload_cmd_def jget_def
      strip_def is_space_def lower_def lower_char_def startswith_def as_int.simps)

lemma try_send_returns: "\<exists>out'. try_send a peer t out = Inr out'"
  by (simp add: try_send_def)

lemma handle_top_admin:
  "admin uid \<Longrightarrow> peer \<noteq> uid \<Longrightarrow>
   handle_top admin names a rows uid peer out =
     send_message a peer TOP_SENT_DM
       (send_message a uid (if rows = [] then EMPTY_DB else StatsTable rows) out)"
  by (simp add: handle_top_def try_send_def Let_def)

text \<open>
  Claim C9 says that when the private send of the statistics fails, the group receives a
  failure notice instead of the acknowledgment. In the code the \<^verbatim>\<open>except\<close> branch that
  sends \<^verbatim>\<open>TOP_DM_FAIL\<close> is never reached, because \<^verbatim>\<open>send_message\<close> does not raise
  (\<open>handle_top_admin\<close>): with the admin 1 calling from the group 2000000001 and the API
  refusing messages to peer 1, the failure is logged and the group still receives
  \<^verbatim>\<open>TOP_SENT_DM\<close>.
\<close>

theorem top_dm_failure_still_acknowledged:
  "handle_top (\<lambda>uid. uid = 1) names (\<lambda>peer t. if peer = 1 then Some RuntimeError else None)
     [demo_user 3] 1 2000000001 []
   = [SendFailed 1 (StatsTable [demo_user 3]) RuntimeError, Delivered 2000000001 TOP_SENT_DM]"
  by (simp add: handle_top_def try_send_def send_message_def Let_def)

end
